theory Spec2Isabelle
  imports Main "HOL-Library.Char_ord" "HOL-Library.List_Lexorder"
begin

section \<open>Python values, exceptions and string helpers\<close>

text \<open>
  Every \<^verbatim>\<open>raise\<close> of the source, and every failing built-in operation on a path the
  model follows, is a value of \<open>exn\<close>; a function that may raise returns \<open>exn + 'a\<close>.
\<close>

datatype exn =
    ValueError
  | KeyError
  | IndexError
  | AttributeError
  | TypeError
  | UnicodeDecodeError
  | OtherError

text \<open>The values a detector may put into a chunk dictionary.\<close>

datatype pyval = PInt int | PStr string | PNone

text \<open>A dictionary with string keys, as an association list (first binding wins).\<close>

type_synonym raw_chunk = "(string \<times> pyval) list"

definition keys :: "(string \<times> 'v) list \<Rightarrow> string set" where
  "keys d = set (map fst d)"

definition getitem :: "(string \<times> 'v) list \<Rightarrow> string \<Rightarrow> exn + 'v" where
  "getitem d k = (case map_of d k of None \<Rightarrow> Inl KeyError | Some v \<Rightarrow> Inr v)"

text \<open>\<^verbatim>\<open>xs[i]\<close> for a non-negative index.\<close>

definition index :: "'a list \<Rightarrow> nat \<Rightarrow> exn + 'a" where
  "index xs i = (if i < length xs then Inr (xs ! i) else Inl IndexError)"

text \<open>\<^verbatim>\<open>s.split(c)\<close> for a one-character separator: always at least one piece.\<close>

fun split_on :: "char \<Rightarrow> string \<Rightarrow> string list" where
  "split_on c [] = [[]]"
| "split_on c (x # xs) =
     (if x = c then [] # split_on c xs
      else (case split_on c xs of
              [] \<Rightarrow> [[x]]
            | p # ps \<Rightarrow> (x # p) # ps))"

text \<open>\<^verbatim>\<open>sep.join(xs)\<close>.\<close>

fun join :: "string \<Rightarrow> string list \<Rightarrow> string" where
  "join sep [] = []"
| "join sep [x] = x"
| "join sep (x # y # ys) = x @ sep @ join sep (y # ys)"

text \<open>\<^verbatim>\<open>str(n)\<close> and the f-string rendering of an integer: decimal, with a sign.\<close>

definition digit_char :: "nat \<Rightarrow> char" where
  "digit_char d =
     (if d = 0 then CHR ''0'' else if d = 1 then CHR ''1'' else if d = 2 then CHR ''2''
      else if d = 3 then CHR ''3'' else if d = 4 then CHR ''4'' else if d = 5 then CHR ''5''
      else if d = 6 then CHR ''6'' else if d = 7 then CHR ''7'' else if d = 8 then CHR ''8''
      else CHR ''9'')"

function str_nat :: "nat \<Rightarrow> string" where
  "str_nat n = (if n < 10 then [digit_char n] else str_nat (n div 10) @ [digit_char (n mod 10)])"
  by pat_completeness auto
termination
  by (relation "measure (\<lambda>n. n)") auto

declare str_nat.simps [simp del]

definition str_int :: "int \<Rightarrow> string" where
  "str_int i = (if i < 0 then CHR ''-'' # str_nat (nat (- i)) else str_nat (nat i))"

section \<open>Chunk validation (chunker.py, is_chunk_valid)\<close>

text \<open>
  \<^verbatim>\<open>chunk["id"].count(":")\<close> is a method of \<^verbatim>\<open>str\<close>: on an integer or \<^verbatim>\<open>None\<close> it raises
  AttributeError. The values under \<^verbatim>\<open>start_line\<close> and \<^verbatim>\<open>end_line\<close> are never read.
\<close>

definition is_chunk_valid :: "raw_chunk \<Rightarrow> exn + bool" where
  "is_chunk_valid chunk =
     (if \<not> keys chunk = {''id'', ''start_line'', ''end_line''} then Inr False
      else case getitem chunk ''id'' of
        Inl e \<Rightarrow> Inl e
      | Inr (PStr s) \<Rightarrow>
          if \<not> count_list s CHR '':'' = 1 then Inr False
          else (case index (split_on CHR '':'' s) 1 of
                  Inl e \<Rightarrow> Inl e
                | Inr seg \<Rightarrow> if \<not> length seg \<noteq> 0 then Inr False else Inr True)
      | Inr _ \<Rightarrow> Inl AttributeError)"

text \<open>\<^verbatim>\<open>all(is_chunk_valid(chunk) for chunk in chunks)\<close>: stops at the first False,
  and an exception of one call leaves the generator.\<close>

fun all_valid :: "raw_chunk list \<Rightarrow> exn + bool" where
  "all_valid [] = Inr True"
| "all_valid (c # cs) =
     (case is_chunk_valid c of
        Inl e \<Rightarrow> Inl e
      | Inr b \<Rightarrow> if b then all_valid cs else Inr False)"

definition exn_bind :: "exn + 'a \<Rightarrow> ('a \<Rightarrow> exn + 'b) \<Rightarrow> exn + 'b" where
  "exn_bind m f = (case m of Inl e \<Rightarrow> Inl e | Inr x \<Rightarrow> f x)"

section \<open>Data model: chunk descriptors, node attributes, store, collaborators\<close>

text \<open>The standardized descriptor \<^verbatim>\<open>{"id": ..., "ref": ...}\<close> kept in a file's \<^verbatim>\<open>chunks\<close>.\<close>

record chunk_desc =
  chunk_id :: string
  chunk_ref :: string

text \<open>
  The \<^verbatim>\<open>chunks\<close> attribute is a Python list on a freshly decomposed node and the
  \<^verbatim>\<open>json.dumps\<close> string of that list in the store; \<open>ChunksJson xs\<close> stands for the string
  \<^verbatim>\<open>json.dumps(xs)\<close>, which \<^verbatim>\<open>json.loads\<close> turns back into \<open>xs\<close>.
\<close>

datatype chunks_val = ChunksList "chunk_desc list" | ChunksJson "chunk_desc list"

text \<open>
  A node's attribute dictionary, restricted to the keys the code reads or writes.
  \<open>None\<close> is an absent key (for \<^verbatim>\<open>chunks\<close>: absent or \<^verbatim>\<open>None\<close>, which
  \<^verbatim>\<open>data.get("chunks", None) is None\<close> does not tell apart).
\<close>

record node_data =
  n_id :: "string option"
  n_type :: "string option"
  n_path :: "string option"
  n_ref :: "string option"
  n_checksum :: "string option"
  n_active :: "bool option"
  n_chunks :: "chunks_val option"

definition no_attrs :: node_data where
  "no_attrs = \<lparr>n_id = None, n_type = None, n_path = None, n_ref = None,
                n_checksum = None, n_active = None, n_chunks = None\<rparr>"

text \<open>The content store: at most one record (document, metadata) per checksum.\<close>

type_synonym db = "string \<rightharpoonup> (string \<times> node_data)"

text \<open>\<^verbatim>\<open>upsert(ids, documents, metadatas)\<close>: the records are written in order.\<close>

fun upsert :: "db \<Rightarrow> (string \<times> string \<times> node_data) list \<Rightarrow> db" where
  "upsert d [] = d"
| "upsert d ((i, doc, md) # rs) = upsert (d(i \<mapsto> (doc, md))) rs"

text \<open>
  The collaborators that are not part of the modelled sources, as parameters:
  the tracked paths (each a list of parts), \<^verbatim>\<open>get_document\<close> and \<^verbatim>\<open>hash_str\<close> of
  \<^verbatim>\<open>ragdaemon.utils\<close>, the lines \<^verbatim>\<open>read_text().splitlines()\<close> gives for a path, the
  boundary detector \<^verbatim>\<open>chunk_file\<close>, and \<^verbatim>\<open>token_counter\<close> of \<^verbatim>\<open>ragdaemon.llm\<close>.
\<close>

record env =
  get_non_gitignored_files :: "string list list"
  get_document :: "string \<Rightarrow> exn + string"
  hash_str :: "string \<Rightarrow> string"
  read_lines :: "string \<Rightarrow> exn + string list"
  chunk_file :: "string \<Rightarrow> string list \<Rightarrow> exn + raw_chunk list"
  token_counter :: "string \<Rightarrow> int"

section \<open>Chunk decomposition of one file (chunker.py, get_file_chunk_data)\<close>

text \<open>Lines 50--55: the detector is only called on a non-empty file, and one invalid
  chunk raises ValueError for the whole list.\<close>

definition detect_chunks :: "env \<Rightarrow> string \<Rightarrow> string list \<Rightarrow> exn + raw_chunk list" where
  "detect_chunks ev node file_lines =
     (if length file_lines = 0 then Inr []
      else exn_bind (chunk_file ev node file_lines) (\<lambda>chunks.
           exn_bind (all_valid chunks) (\<lambda>ok.
           if \<not> ok then Inl ValueError else Inr chunks)))"

text \<open>\<^verbatim>\<open>range(chunk["start_line"], chunk["end_line"] + 1)\<close>: both bounds must be integers.\<close>

definition chunk_bounds :: "raw_chunk \<Rightarrow> exn + (int \<times> int)" where
  "chunk_bounds chunk =
     exn_bind (getitem chunk ''start_line'') (\<lambda>s.
     exn_bind (getitem chunk ''end_line'') (\<lambda>e.
     case (s, e) of
       (PInt a, PInt b) \<Rightarrow> Inr (a, b)
     | _ \<Rightarrow> Inl TypeError))"

text \<open>Lines 58--61. The set \<^verbatim>\<open>base_chunk_lines\<close> is kept as the ascending list of its
  elements; \<^verbatim>\<open>discard\<close> of every \<open>i\<close> of a range is a filter.\<close>

fun discard_chunks :: "int list \<Rightarrow> raw_chunk list \<Rightarrow> exn + int list" where
  "discard_chunks ls [] = Inr ls"
| "discard_chunks ls (c # cs) =
     exn_bind (chunk_bounds c) (\<lambda>(a, b).
       discard_chunks (filter (\<lambda>i. \<not> (a \<le> i \<and> i \<le> b)) ls) cs)"

definition base_chunk_lines :: "string list \<Rightarrow> raw_chunk list \<Rightarrow> exn + int list" where
  "base_chunk_lines file_lines chunks = discard_chunks [1 .. int (length file_lines)] chunks"

text \<open>Lines 67--76: the loop over \<^verbatim>\<open>base_chunk_lines_sorted[1:]\<close> and the append after it.\<close>

fun refs_loop :: "int \<Rightarrow> int \<Rightarrow> int list \<Rightarrow> string list \<Rightarrow> string list" where
  "refs_loop start end [] refs = refs @ [str_int start @ ''-'' @ str_int end]"
| "refs_loop start end (i # rest) refs =
     (if i = end + 1 then refs_loop start i rest refs
      else refs_loop i i rest
             (refs @ [if start = end then str_int start
                      else str_int start @ ''-'' @ str_int end]))"

text \<open>Lines 62--78.\<close>

definition base_chunk_refs :: "int list \<Rightarrow> string list" where
  "base_chunk_refs lines =
     (if length lines > 0 then
        (case sort lines of
           [] \<Rightarrow> []
         | start # rest \<Rightarrow> refs_loop start start rest [])
      else [])"

text \<open>Lines 80--83.\<close>

definition base_chunk :: "string \<Rightarrow> string list \<Rightarrow> chunk_desc" where
  "base_chunk node refs =
     \<lparr>chunk_id = node @ '':BASE'',
      chunk_ref = node @ (if refs \<noteq> [] then '':'' @ join '','' refs else [])\<rparr>"

text \<open>The f-string rendering of a value.\<close>

fun fmt :: "pyval \<Rightarrow> string" where
  "fmt (PInt i) = str_int i"
| "fmt (PStr s) = s"
| "fmt PNone = ''None''"

text \<open>Lines 84--90, one author chunk. The id is a string here (validation has read it
  as one), so the TypeError branch is never taken from \<open>get_file_chunk_data\<close>.\<close>

definition author_chunk :: "string \<Rightarrow> raw_chunk \<Rightarrow> exn + chunk_desc" where
  "author_chunk node chunk =
     exn_bind (getitem chunk ''id'') (\<lambda>i.
     exn_bind (getitem chunk ''start_line'') (\<lambda>s.
     exn_bind (getitem chunk ''end_line'') (\<lambda>e.
     case i of
       PStr ident \<Rightarrow> Inr \<lparr>chunk_id = ident, chunk_ref = node @ '':'' @ fmt s @ ''-'' @ fmt e\<rparr>
     | _ \<Rightarrow> Inl TypeError)))"

fun author_chunks :: "string \<Rightarrow> raw_chunk list \<Rightarrow> exn + chunk_desc list" where
  "author_chunks node [] = Inr []"
| "author_chunks node (c # cs) =
     exn_bind (author_chunk node c) (\<lambda>d.
     exn_bind (author_chunks node cs) (\<lambda>ds. Inr (d # ds)))"

text \<open>Lines 56--90: an empty list stays empty and gets no BASE chunk.\<close>

definition standardize :: "string \<Rightarrow> string list \<Rightarrow> raw_chunk list \<Rightarrow> exn + chunk_desc list" where
  "standardize node file_lines chunks =
     (if chunks \<noteq> [] then
        exn_bind (base_chunk_lines file_lines chunks) (\<lambda>lines.
        exn_bind (author_chunks node chunks) (\<lambda>ds.
        Inr (ds @ [base_chunk node (base_chunk_refs lines)])))
      else Inr [])"

text \<open>
  The whole function. Lines 92--95 write the JSON of the list into the file's store
  record (IndexError when the store has none, KeyError when the node has no checksum)
  and the list itself onto the node; nothing is written when an earlier line raised.
\<close>

definition get_file_chunk_data ::
  "env \<Rightarrow> db \<Rightarrow> string \<Rightarrow> node_data \<Rightarrow> exn + (db \<times> node_data)" where
  "get_file_chunk_data ev d node data =
     exn_bind (read_lines ev node) (\<lambda>file_lines.
     exn_bind (detect_chunks ev node file_lines) (\<lambda>chunks.
     exn_bind (standardize node file_lines chunks) (\<lambda>descs.
     case n_checksum data of
       None \<Rightarrow> Inl KeyError
     | Some checksum \<Rightarrow>
         (case d checksum of
            None \<Rightarrow> Inl IndexError
          | Some (doc, metadatas) \<Rightarrow>
              Inr (d(checksum \<mapsto> (doc, metadatas\<lparr>n_chunks := Some (ChunksJson descs)\<rparr>)),
                   data\<lparr>n_chunks := Some (ChunksList descs)\<rparr>)))))"

section \<open>The graph (networkx MultiDiGraph)\<close>

text \<open>
  Nodes in insertion order with their attribute dictionaries; edges as a list, since a
  multigraph keeps every parallel edge; the graph attributes the code uses.
\<close>

record graph =
  nodes :: "(string \<times> node_data) list"
  edges :: "(string \<times> string \<times> string) list"
  cwd :: "string option"
  files_checksum :: "string option"

definition empty_graph :: graph where
  "empty_graph = \<lparr>nodes = [], edges = [], cwd = None, files_checksum = None\<rparr>"

text \<open>\<^verbatim>\<open>d[k] = v\<close> on an insertion-ordered dictionary.\<close>

fun setitem :: "('k \<times> 'v) list \<Rightarrow> 'k \<Rightarrow> 'v \<Rightarrow> ('k \<times> 'v) list" where
  "setitem [] k v = [(k, v)]"
| "setitem ((k', v') # rest) k v =
     (if k' = k then (k, v) # rest else (k', v') # setitem rest k v)"

text \<open>\<^verbatim>\<open>old.update(new)\<close>: a key present in \<open>new\<close> wins.\<close>

definition over :: "'a option \<Rightarrow> 'a option \<Rightarrow> 'a option" where
  "over old new = (case new of None \<Rightarrow> old | Some v \<Rightarrow> Some v)"

definition merge_attrs :: "node_data \<Rightarrow> node_data \<Rightarrow> node_data" where
  "merge_attrs old new =
     \<lparr>n_id = over (n_id old) (n_id new), n_type = over (n_type old) (n_type new),
      n_path = over (n_path old) (n_path new), n_ref = over (n_ref old) (n_ref new),
      n_checksum = over (n_checksum old) (n_checksum new),
      n_active = over (n_active old) (n_active new),
      n_chunks = over (n_chunks old) (n_chunks new)\<rparr>"

text \<open>\<^verbatim>\<open>graph.add_node(n, **attrs)\<close>: a new node, or an update of the attributes of
  an existing one.\<close>

definition add_node :: "string \<Rightarrow> node_data \<Rightarrow> graph \<Rightarrow> graph" where
  "add_node n attrs g =
     (case map_of (nodes g) n of
        None \<Rightarrow> g\<lparr>nodes := nodes g @ [(n, attrs)]\<rparr>
      | Some old \<Rightarrow> g\<lparr>nodes := setitem (nodes g) n (merge_attrs old attrs)\<rparr>)"

text \<open>\<^verbatim>\<open>graph.add_edge(u, v, type=t)\<close>: end points that are not nodes yet become nodes
  without attributes; the edge is always a new one, also beside an equal edge.\<close>

definition add_edge :: "string \<Rightarrow> string \<Rightarrow> string \<Rightarrow> graph \<Rightarrow> graph" where
  "add_edge u v t g =
     (let g1 = (if u \<in> keys (nodes g) then g else g\<lparr>nodes := nodes g @ [(u, no_attrs)]\<rparr>);
          g2 = (if v \<in> keys (nodes g1) then g1 else g1\<lparr>nodes := nodes g1 @ [(v, no_attrs)]\<rparr>)
      in g2\<lparr>edges := edges g2 @ [(u, v, t)]\<rparr>)"

text \<open>\<^verbatim>\<open>edges_to_add.add(e)\<close>. The Python set is kept as the list of its elements in
  the order they were first added; Python fixes no iteration order for it.\<close>

definition set_add :: "'a \<Rightarrow> 'a list \<Rightarrow> 'a list" where
  "set_add e es = (if e \<in> set es then es else es @ [e])"

section \<open>Paths\<close>

text \<open>A relative \<^verbatim>\<open>Path\<close> is the list of its parts; \<^verbatim>\<open>str\<close> joins them, the parent drops
  the last one.\<close>

definition str_path :: "string list \<Rightarrow> string" where
  "str_path parts = (if parts = [] then ''.'' else join ''/'' parts)"

definition rfind :: "char \<Rightarrow> string \<Rightarrow> nat option" where
  "rfind c s = (if c \<in> set s then Some (length s - 1 - length (takeWhile (\<lambda>x. x \<noteq> c) (rev s)))
                else None)"

text \<open>\<^verbatim>\<open>Path(s).suffix\<close>: the last dot of the final component, unless it is the first or
  the last character of it.\<close>

definition suffix :: "string \<Rightarrow> string" where
  "suffix s =
     (let name = last (split_on CHR ''/'' s) in
      case rfind CHR ''.'' name of
        None \<Rightarrow> []
      | Some i \<Rightarrow> if 0 < i \<and> i < length name - 1 then drop i name else [])"

section \<open>Hierarchy stage (hierarchy.py)\<close>

text \<open>Lines 22--44. Both \<^verbatim>\<open>except\<close> clauses go on with the next path; the store is read
  as it was before the call, the new records are written at the end.\<close>

fun checksums_loop ::
  "env \<Rightarrow> db \<Rightarrow> bool \<Rightarrow> string list list \<Rightarrow> (string list \<times> string) list \<Rightarrow>
   (string \<times> string \<times> node_data) list \<Rightarrow>
   (string list \<times> string) list \<times> (string \<times> string \<times> node_data) list" where
  "checksums_loop ev d refresh [] checksums add_to_db = (checksums, add_to_db)"
| "checksums_loop ev d refresh (path # rest) checksums add_to_db =
     (case get_document ev (str_path path) of
        Inl e \<Rightarrow> checksums_loop ev d refresh rest checksums add_to_db
      | Inr document \<Rightarrow>
          (let checksum = hash_str ev document;
               existing_record = (d checksum \<noteq> None);
               metadatas = \<lparr>n_id = Some (str_path path), n_type = Some ''file'',
                            n_path = Some (str_path path), n_ref = None,
                            n_checksum = Some checksum, n_active = Some False,
                            n_chunks = None\<rparr>
           in checksums_loop ev d refresh rest (setitem checksums path checksum)
                (if refresh \<or> \<not> existing_record
                 then add_to_db @ [(checksum, document, metadatas)] else add_to_db)))"

definition get_active_checksums ::
  "env \<Rightarrow> db \<Rightarrow> bool \<Rightarrow> (string list \<times> string) list \<times> db" where
  "get_active_checksums ev d refresh =
     (case checksums_loop ev d refresh (get_non_gitignored_files ev) [] [] of
        (checksums, add_to_db) \<Rightarrow>
          (checksums, if length add_to_db > 0 then upsert d add_to_db else d))"

text \<open>Lines 56 and 65: \<^verbatim>\<open>hash_str("".join(sorted(checksums.values())))\<close>.\<close>

definition fingerprint :: "env \<Rightarrow> (string list \<times> string) list \<Rightarrow> string" where
  "fingerprint ev checksums = hash_str ev (concat (sort (map snd checksums)))"

text \<open>Lines 53--57. Recomputing the checksums may write new records, so the store is
  returned too.\<close>

definition Hierarchy_is_complete :: "env \<Rightarrow> db \<Rightarrow> graph \<Rightarrow> exn + (bool \<times> db)" where
  "Hierarchy_is_complete ev d g =
     (case cwd g of
        None \<Rightarrow> Inl KeyError
      | Some c \<Rightarrow>
          (case get_active_checksums ev d False of
             (checksums, d') \<Rightarrow> Inr (files_checksum g = Some (fingerprint ev checksums), d')))"

text \<open>Lines 78--84, \<^verbatim>\<open>_link_to_cwd\<close>: the recursion goes up one part at a time.\<close>

function link_to_cwd ::
  "string list \<Rightarrow> (string \<times> string) list \<Rightarrow> (string \<times> string) list" where
  "link_to_cwd p edges_to_add =
     (let parent = (if length p > 1 then str_path (butlast p) else ''ROOT'');
          edges_to_add' = set_add (parent, str_path p) edges_to_add
      in if parent \<noteq> ''ROOT'' then link_to_cwd (butlast p) edges_to_add' else edges_to_add')"
  by pat_completeness auto
termination
  by (relation "measure (\<lambda>(p, es). length p)") (auto split: if_splits)

declare link_to_cwd.simps [simp del]

text \<open>Lines 70--84: one file node per checksum entry, with the attributes of its store
  record.\<close>

fun file_nodes_loop ::
  "db \<Rightarrow> (string list \<times> string) list \<Rightarrow> graph \<Rightarrow> (string \<times> string) list \<Rightarrow>
   exn + (graph \<times> (string \<times> string) list)" where
  "file_nodes_loop d [] g edges_to_add = Inr (g, edges_to_add)"
| "file_nodes_loop d ((path, checksum) # rest) g edges_to_add =
     (case d checksum of
        None \<Rightarrow> Inl IndexError
      | Some (doc, record) \<Rightarrow>
          file_nodes_loop d rest (add_node (str_path path) record g)
            (link_to_cwd path edges_to_add))"

text \<open>Lines 88--92.\<close>

definition ensure_directory :: "string \<Rightarrow> graph \<Rightarrow> graph" where
  "ensure_directory node_id g =
     (if node_id \<notin> keys (nodes g)
      then add_node node_id
             \<lparr>n_id = Some node_id, n_type = Some ''directory'', n_path = Some node_id,
              n_ref = None, n_checksum = None, n_active = None, n_chunks = None\<rparr> g
      else g)"

text \<open>Lines 87--93.\<close>

fun directories_loop :: "(string \<times> string) list \<Rightarrow> graph \<Rightarrow> graph" where
  "directories_loop [] g = g"
| "directories_loop ((source, target) # rest) g =
     directories_loop rest
       (add_edge source target ''hierarchy'' (ensure_directory target (ensure_directory source g)))"

text \<open>Lines 59--96. The old graph gives the working directory and nothing else.\<close>

definition Hierarchy_annotate :: "env \<Rightarrow> db \<Rightarrow> graph \<Rightarrow> bool \<Rightarrow> exn + (graph \<times> db)" where
  "Hierarchy_annotate ev d old_graph refresh =
     (case cwd old_graph of
        None \<Rightarrow> Inl KeyError
      | Some c \<Rightarrow>
          (case get_active_checksums ev d refresh of
             (checksums, d') \<Rightarrow>
               exn_bind (file_nodes_loop d' checksums (empty_graph\<lparr>cwd := Some c\<rparr>) [])
                 (\<lambda>(g, edges_to_add).
                    Inr ((directories_loop edges_to_add g)
                           \<lparr>files_checksum := Some (fingerprint ev checksums)\<rparr>, d'))))"

section \<open>Chunker stage (chunker.py)\<close>

text \<open>Lines 145--155, \<^verbatim>\<open>_link_to_base_chunk\<close>. Unpacking \<^verbatim>\<open>_id.split(":")\<close> into two names
  raises ValueError unless there is exactly one colon. The recursion ends because the
  parent id has one dot-separated segment less.\<close>

function link_to_base_chunk ::
  "string \<Rightarrow> string \<Rightarrow> (string \<times> string) list \<Rightarrow> exn + (string \<times> string) list" where
  "link_to_base_chunk base_id ident edges_to_add =
     (case split_on CHR '':'' ident of
        [path_str, chunk_str] \<Rightarrow>
          (let chunk_list = split_on CHR ''.'' chunk_str;
               parent = (if length chunk_list > 1
                         then path_str @ '':'' @ join ''.'' (butlast chunk_list)
                         else base_id);
               edges_to_add' = set_add (parent, ident) edges_to_add
           in if parent \<noteq> base_id then link_to_base_chunk base_id parent edges_to_add'
              else Inr edges_to_add')
      | _ \<Rightarrow> Inl ValueError)"
  by pat_completeness auto
termination
proof (relation "measure (\<lambda>(b, i, es). length i)", goal_cases)
  case 1
  show ?case by simp
next
  case (2 base_id ident edges_to_add path_str rest chunk_str rest' chunk_list parent es')
  have join_split: "join [c] (split_on c s) = s" for c :: char and s
  proof (induction s)
    case Nil
    show ?case by simp
  next
    case (Cons x xs)
    show ?case
    proof (cases "split_on c xs")
      case Nil
      with Cons show ?thesis by simp
    next
      case (Cons p ps)
      with Cons.IH show ?thesis by (cases ps) auto
    qed
  qed
  have join_snoc: "xs \<noteq> [] \<Longrightarrow> join sep (xs @ [y]) = join sep xs @ sep @ y"
    for sep :: string and xs y
    by (induction sep xs rule: join.induct) auto
  have shorter: "length (join [c] (butlast xs)) < length (join [c] xs)"
    if "length xs > 1" for c :: char and xs
  proof -
    from that have ne: "butlast xs \<noteq> []" by (cases xs) auto
    from that have "xs = butlast xs @ [last xs]" by (cases xs) auto
    then have "join [c] xs = join [c] (butlast xs) @ [c] @ last xs"
      using join_snoc [OF ne, of "[c]" "last xs"] by simp
    then show ?thesis by simp
  qed
  from 2 have sp: "split_on CHR '':'' ident = [path_str, chunk_str]" by simp
  have id: "ident = path_str @ '':'' @ chunk_str"
    using join_split [of "CHR '':''" ident] by (simp add: sp)
  from 2 have gt: "length (split_on CHR ''.'' chunk_str) > 1"
    by (auto split: if_splits)
  have "length (join ''.'' (butlast (split_on CHR ''.'' chunk_str))) < length chunk_str"
    using shorter [OF gt, of "CHR ''.''"] join_split [of "CHR ''.''" chunk_str] by simp
  with 2 gt id show ?case by simp
qed

declare link_to_base_chunk.simps [simp del]

text \<open>Lines 116--157. Whatever is raised inside the \<^verbatim>\<open>try\<close> skips the chunk; the store
  is the one before the call (new records are written by the caller, later). A store
  record found under the checksum is used as it is, with its own id.\<close>

fun chunks_loop ::
  "env \<Rightarrow> db \<Rightarrow> bool \<Rightarrow> string \<Rightarrow> chunk_desc list \<Rightarrow> graph \<Rightarrow> (string \<times> string) list \<Rightarrow>
   (string \<times> string \<times> node_data) list \<Rightarrow>
   exn + (graph \<times> (string \<times> string) list \<times> (string \<times> string \<times> node_data) list)" where
  "chunks_loop ev d refresh base_id [] g edges_to_add add_to_db = Inr (g, edges_to_add, add_to_db)"
| "chunks_loop ev d refresh base_id (chunk # rest) g edges_to_add add_to_db =
     (case get_document ev (chunk_ref chunk) of
        Inl e \<Rightarrow> chunks_loop ev d refresh base_id rest g edges_to_add add_to_db
      | Inr document \<Rightarrow>
          (let checksum = hash_str ev document;
               fresh = \<lparr>n_id = Some (chunk_id chunk), n_type = Some ''chunk'', n_path = None,
                        n_ref = Some (chunk_ref chunk), n_checksum = Some checksum,
                        n_active = Some False, n_chunks = None\<rparr>;
               found = (if refresh then None else d checksum);
               record = (case found of None \<Rightarrow> fresh | Some (doc, md) \<Rightarrow> md);
               add_to_db' = (case found of
                               None \<Rightarrow> add_to_db @ [(checksum, document, fresh)]
                             | Some r \<Rightarrow> add_to_db)
           in case n_id record of
                None \<Rightarrow> Inl KeyError
              | Some rid \<Rightarrow>
                  exn_bind (link_to_base_chunk base_id (chunk_id chunk) edges_to_add)
                    (\<lambda>edges_to_add'.
                       chunks_loop ev d refresh base_id rest (add_node rid record g)
                         edges_to_add' add_to_db')))"

text \<open>Lines 158--159.\<close>

fun add_edges :: "(string \<times> string) list \<Rightarrow> graph \<Rightarrow> graph" where
  "add_edges [] g = g"
| "add_edges ((source, origin) # rest) g = add_edges rest (add_edge source origin ''hierarchy'' g)"

text \<open>
  Lines 98--160. \<open>data\<close> is the attribute dictionary of the node \<open>file\<close> in the graph, so
  decoding the JSON of \<^verbatim>\<open>chunks\<close> changes the node. An empty list returns before any
  edge is collected.
\<close>

definition add_file_chunks_to_graph ::
  "env \<Rightarrow> db \<Rightarrow> string \<Rightarrow> graph \<Rightarrow> bool \<Rightarrow>
   exn + (graph \<times> (string \<times> string \<times> node_data) list)" where
  "add_file_chunks_to_graph ev d file g refresh =
     (case cwd g of
        None \<Rightarrow> Inl KeyError
      | Some c \<Rightarrow>
          (case map_of (nodes g) file of
             None \<Rightarrow> Inl KeyError
           | Some data \<Rightarrow>
               (case n_chunks data of
                  None \<Rightarrow> Inl KeyError
                | Some cv \<Rightarrow>
                    (let chunks = (case cv of ChunksList xs \<Rightarrow> xs | ChunksJson xs \<Rightarrow> xs);
                         g1 = (case cv of
                                 ChunksList xs \<Rightarrow> g
                               | ChunksJson xs \<Rightarrow>
                                   g\<lparr>nodes := setitem (nodes g) file
                                                 (data\<lparr>n_chunks := Some (ChunksList xs)\<rparr>)\<rparr>);
                         base_id = file @ '':BASE''
                     in if \<not> refresh \<and> length chunks = 0 then Inr (g1, [])
                        else exn_bind
                               (chunks_loop ev d refresh base_id chunks g1 [(file, base_id)] [])
                               (\<lambda>(g2, edges_to_add, add_to_db).
                                  Inr (add_edges edges_to_add g2, add_to_db))))))"

text \<open>Lines 192--200.\<close>

fun Chunker_is_complete :: "string list option \<Rightarrow> (string \<times> node_data) list \<Rightarrow> exn + bool" where
  "Chunker_is_complete chunk_extensions [] = Inr True"
| "Chunker_is_complete chunk_extensions ((n, data) # rest) =
     (if n_type data = Some ''file'' \<and> n_chunks data = None then
        (case chunk_extensions of
           None \<Rightarrow> Inr False
         | Some exts \<Rightarrow>
             (case n_ref data of
                None \<Rightarrow> Inl KeyError
              | Some r \<Rightarrow>
                  if suffix r \<in> set exts then Inr False
                  else Chunker_is_complete chunk_extensions rest))
      else Chunker_is_complete chunk_extensions rest)"

text \<open>Lines 222--232: the ids of the file nodes with a matching extension.\<close>

fun select_file_nodes :: "string list option \<Rightarrow> (string \<times> node_data) list \<Rightarrow> exn + string list" where
  "select_file_nodes chunk_extensions [] = Inr []"
| "select_file_nodes chunk_extensions ((file, data) # rest) =
     (if n_type data = Some ''file'' then
        (case chunk_extensions of
           None \<Rightarrow> exn_bind (select_file_nodes chunk_extensions rest) (\<lambda>fs. Inr (file # fs))
         | Some exts \<Rightarrow>
             (case n_ref data of
                None \<Rightarrow> Inl KeyError
              | Some r \<Rightarrow>
                  if suffix r \<in> set exts
                  then exn_bind (select_file_nodes chunk_extensions rest) (\<lambda>fs. Inr (file # fs))
                  else select_file_nodes chunk_extensions rest))
      else select_file_nodes chunk_extensions rest)"

text \<open>Lines 234--246: the tasks, run one after the other; each writes the store record
  and the node of its own file.\<close>

fun tasks_loop :: "env \<Rightarrow> bool \<Rightarrow> string list \<Rightarrow> db \<Rightarrow> graph \<Rightarrow> exn + (db \<times> graph)" where
  "tasks_loop ev refresh [] d g = Inr (d, g)"
| "tasks_loop ev refresh (node # rest) d g =
     (case map_of (nodes g) node of
        None \<Rightarrow> Inl KeyError
      | Some data \<Rightarrow>
          if refresh \<or> n_chunks data = None then
            exn_bind (get_file_chunk_data ev d node data) (\<lambda>(d', data').
              tasks_loop ev refresh rest d' (g\<lparr>nodes := setitem (nodes g) node data'\<rparr>))
          else tasks_loop ev refresh rest d g)"

text \<open>Lines 248--254. The call passes no \<^verbatim>\<open>refresh\<close>, so it is False there.\<close>

fun load_loop ::
  "env \<Rightarrow> db \<Rightarrow> string list \<Rightarrow> graph \<Rightarrow> (string \<times> string \<times> node_data) list \<Rightarrow>
   exn + (graph \<times> (string \<times> string \<times> node_data) list)" where
  "load_loop ev d [] g add_to_db = Inr (g, add_to_db)"
| "load_loop ev d (file # rest) g add_to_db =
     exn_bind (add_file_chunks_to_graph ev d file g False) (\<lambda>(g', add).
       load_loop ev d rest g' (add_to_db @ add))"

text \<open>Lines 218--257.\<close>

definition Chunker_annotate ::
  "env \<Rightarrow> string list option \<Rightarrow> db \<Rightarrow> graph \<Rightarrow> bool \<Rightarrow> exn + (graph \<times> db)" where
  "Chunker_annotate ev chunk_extensions d g refresh =
     (case cwd g of
        None \<Rightarrow> Inl KeyError
      | Some c \<Rightarrow>
          exn_bind (select_file_nodes chunk_extensions (nodes g)) (\<lambda>file_nodes.
          exn_bind (tasks_loop ev refresh file_nodes d g) (\<lambda>(d1, g1).
          exn_bind (load_loop ev d1 file_nodes g1 []) (\<lambda>(g2, add_to_db).
          Inr (g2, if length add_to_db > 0 then upsert d1 add_to_db else d1)))))"

section \<open>Context assembly (daemon.py)\<close>

text \<open>
  \<^verbatim>\<open>int(s)\<close> on ASCII text: white space around, an optional sign, decimal digits with
  single underscores between them; anything else raises ValueError.
\<close>

definition digit_val :: "char \<Rightarrow> nat option" where
  "digit_val c = map_of (zip ''0123456789'' [0, 1, 2, 3, 4, 5, 6, 7, 8, 9]) c"

fun parse_digits :: "nat \<Rightarrow> bool \<Rightarrow> string \<Rightarrow> nat option" where
  "parse_digits acc after_digit [] = (if after_digit then Some acc else None)"
| "parse_digits acc after_digit (c # cs) =
     (case digit_val c of
        Some v \<Rightarrow> parse_digits (10 * acc + v) True cs
      | None \<Rightarrow>
          if c = CHR ''_'' \<and> after_digit then parse_digits acc False cs else None)"

definition is_space :: "char \<Rightarrow> bool" where
  "is_space c \<longleftrightarrow> c \<in> {CHR '' '', CHR 0x09, CHR 0x0A, CHR 0x0B, CHR 0x0C, CHR 0x0D}"

definition strip :: "string \<Rightarrow> string" where
  "strip s = rev (dropWhile is_space (rev (dropWhile is_space s)))"

definition py_int :: "string \<Rightarrow> exn + int" where
  "py_int s =
     (case strip s of
        [] \<Rightarrow> Inl ValueError
      | c # cs \<Rightarrow>
          if c = CHR ''-'' then
            (case parse_digits 0 False cs of None \<Rightarrow> Inl ValueError | Some n \<Rightarrow> Inr (- int n))
          else if c = CHR ''+'' then
            (case parse_digits 0 False cs of None \<Rightarrow> Inl ValueError | Some n \<Rightarrow> Inr (int n))
          else
            (case parse_digits 0 False (c # cs) of
               None \<Rightarrow> Inl ValueError | Some n \<Rightarrow> Inr (int n)))"

text \<open>\<^verbatim>\<open>s.splitlines()\<close> for the line ends LF, CR and CR LF.\<close>

fun splitlines :: "string \<Rightarrow> string list" where
  "splitlines [] = []"
| "splitlines (c # cs) =
     (if c = CHR 0x0A then [] # splitlines cs
      else if c = CHR 0x0D then
        (case cs of
           [] \<Rightarrow> [[]]
         | c' # cs' \<Rightarrow> if c' = CHR 0x0A then [] # splitlines cs' else [] # splitlines cs)
      else (case splitlines cs of
              [] \<Rightarrow> [[c]]
            | l # ls \<Rightarrow> (c # l) # ls))"

text \<open>\<^verbatim>\<open>xs[i]\<close> for any integer index: a negative one counts from the end.\<close>

definition index_int :: "'a list \<Rightarrow> int \<Rightarrow> exn + 'a" where
  "index_int xs i =
     (if 0 \<le> i \<and> i < int (length xs) then Inr (xs ! nat i)
      else if i < 0 \<and> - i \<le> int (length xs) then Inr (xs ! nat (int (length xs) + i))
      else Inl IndexError)"

text \<open>
  One entry of \<^verbatim>\<open>context\<close>. The sets \<^verbatim>\<open>lines\<close> and \<^verbatim>\<open>tags\<close> are kept as the lists of their
  elements in the order they were first added; the lines are sorted before they are
  rendered, the tags are joined in the order the set gives, which Python does not fix.
\<close>

record message =
  m_id :: string
  m_lines :: "int list"
  m_tags :: "string list"
  m_document :: string

definition nl :: string where
  "nl = [CHR 0x0A]"

text \<open>Lines 75--79.\<close>

fun render_lines :: "string list \<Rightarrow> int \<Rightarrow> int list \<Rightarrow> string \<Rightarrow> exn + string" where
  "render_lines file_lines last_rendered [] output = Inr output"
| "render_lines file_lines last_rendered (line # rest) output =
     (let output1 = (if line - last_rendered > 1 then output @ ''...'' @ nl else output)
      in exn_bind (index_int file_lines line) (\<lambda>text.
           render_lines file_lines line rest
             (output1 @ str_int line @ '': '' @ text @ nl)))"

text \<open>Lines 67--79, from a given output on.\<close>

fun render_loop :: "message list \<Rightarrow> string \<Rightarrow> exn + string" where
  "render_loop [] output = Inr output"
| "render_loop (data # rest) output =
     (let output1 = (if output \<noteq> [] then output @ nl else output);
          tags = '' ('' @ join '', '' (m_tags data) @ '')'';
          output2 = output1 @ m_id data @ tags @ nl
      in exn_bind (render_lines (splitlines (m_document data)) 0 (sort (m_lines data)) output2)
           (\<lambda>output3. render_loop rest output3))"

text \<open>Lines 64--80.\<close>

definition render_context_message :: "(string \<times> message) list \<Rightarrow> exn + string" where
  "render_context_message context = render_loop (map snd context) []"

text \<open>\<^verbatim>\<open>path, lines_ref = id, None\<close>, then \<^verbatim>\<open>id.split(":", 1)\<close> when there is a colon.\<close>

definition split_ref :: "string \<Rightarrow> string \<times> string option" where
  "split_ref ident =
     (if CHR '':'' \<in> set ident
      then (takeWhile (\<lambda>c. c \<noteq> CHR '':'') ident,
            Some (tl (dropWhile (\<lambda>c. c \<noteq> CHR '':'') ident)))
      else (ident, None))"

text \<open>Lines 116--121 and 149--154, one range.\<close>

definition add_range :: "string \<Rightarrow> int list \<Rightarrow> exn + int list" where
  "add_range r lines =
     (if CHR ''-'' \<in> set r then
        (case split_on CHR ''-'' r of
           [start, end] \<Rightarrow>
             exn_bind (py_int start) (\<lambda>s.
             exn_bind (py_int end) (\<lambda>e.
             Inr (fold set_add [s .. e] lines)))
         | _ \<Rightarrow> Inl ValueError)
      else exn_bind (py_int r) (\<lambda>i. Inr (set_add i lines)))"

fun add_ranges :: "string list \<Rightarrow> int list \<Rightarrow> exn + int list" where
  "add_ranges [] lines = Inr lines"
| "add_ranges (r # rest) lines = exn_bind (add_range r lines) (\<lambda>lines'. add_ranges rest lines')"

text \<open>Lines 114--124 and 147--157: a non-empty \<^verbatim>\<open>lines_ref\<close> is a comma-separated list of
  ranges; otherwise \<^verbatim>\<open>range(1, len(document.splitlines()))\<close> is added.\<close>

definition add_lines :: "string option \<Rightarrow> message \<Rightarrow> exn + message" where
  "add_lines lines_ref m =
     (let every_line = fold set_add [1 .. int (length (splitlines (m_document m))) - 1] (m_lines m)
      in case lines_ref of
           None \<Rightarrow> Inr (m\<lparr>m_lines := every_line\<rparr>)
         | Some r \<Rightarrow>
             if r \<noteq> [] then
               exn_bind (add_ranges (split_on CHR '','' r) (m_lines m))
                 (\<lambda>lines. Inr (m\<lparr>m_lines := lines\<rparr>))
             else Inr (m\<lparr>m_lines := every_line\<rparr>))"

text \<open>
  Lines 97--124. For a path that is a node, the entry is created when missing
  (KeyError without a checksum, IndexError without a store record), and then
  \<^verbatim>\<open>context[path]["tags"].append("user-included")\<close> is called on a \<^verbatim>\<open>set\<close>, which has no
  \<^verbatim>\<open>append\<close>: AttributeError. Lines 114--124 are not reached.
\<close>

fun include_loop ::
  "db \<Rightarrow> graph \<Rightarrow> string list \<Rightarrow> (string \<times> message) list \<Rightarrow> exn + (string \<times> message) list" where
  "include_loop d g [] context = Inr context"
| "include_loop d g (ident # rest) context =
     (case split_ref ident of
        (path, lines_ref) \<Rightarrow>
          if path \<notin> keys (nodes g) then include_loop d g rest context
          else exn_bind
                 (if path \<notin> keys context then
                    exn_bind (getitem (nodes g) path) (\<lambda>data.
                      case n_checksum data of
                        None \<Rightarrow> Inl KeyError
                      | Some checksum \<Rightarrow>
                          (case d checksum of
                             None \<Rightarrow> Inl IndexError
                           | Some (document, md) \<Rightarrow>
                               Inr (setitem context path
                                      \<lparr>m_id = ident, m_lines = [], m_tags = [],
                                       m_document = document\<rparr>)))
                  else Inr context)
                 (\<lambda>context1. Inl AttributeError))"

text \<open>Lines 134--163. A search result is the metadata of a store record and its
  document; \<open>i\<close> counts the results from 0.\<close>

fun search_loop ::
  "env \<Rightarrow> int \<Rightarrow> int \<Rightarrow> nat \<Rightarrow> (node_data \<times> string) list \<Rightarrow> (string \<times> message) list \<Rightarrow>
   string \<Rightarrow> exn + string" where
  "search_loop ev auto_tokens include_tokens i [] context full_context_message =
     Inr full_context_message"
| "search_loop ev auto_tokens include_tokens i ((node, document) # rest) context
     full_context_message =
     (case n_path node of
        None \<Rightarrow> Inl KeyError
      | Some p \<Rightarrow>
          (case split_ref p of
             (path, lines_ref) \<Rightarrow>
               exn_bind
                 (if path \<notin> keys context then
                    (case n_id node of
                       None \<Rightarrow> Inl KeyError
                     | Some nid \<Rightarrow>
                         Inr (setitem context path
                                \<lparr>m_id = nid, m_lines = [], m_tags = [], m_document = document\<rparr>))
                  else Inr context)
                 (\<lambda>context1.
                    exn_bind (getitem context1 path) (\<lambda>m.
                    exn_bind
                      (add_lines lines_ref
                         (m\<lparr>m_tags := set_add (''no-'' @ str_int (int i + 1) @ ''-search-result'')
                                        (m_tags m)\<rparr>))
                      (\<lambda>m'.
                         let context2 = setitem context1 path m' in
                         exn_bind (render_context_message context2) (\<lambda>next_context_message.
                           let next_tokens = token_counter ev next_context_message in
                           if next_tokens - include_tokens > auto_tokens
                           then Inr full_context_message
                           else search_loop ev auto_tokens include_tokens (Suc i) rest context2
                                  next_context_message))))))"

text \<open>Lines 82--164. \<open>results\<close> is what \<^verbatim>\<open>self.search(query)\<close> returns.\<close>

definition get_context_message ::
  "env \<Rightarrow> db \<Rightarrow> graph \<Rightarrow> (node_data \<times> string) list \<Rightarrow> string list \<Rightarrow> int \<Rightarrow> int \<Rightarrow>
   exn + string" where
  "get_context_message ev d g results include max_tokens auto_tokens =
     exn_bind (include_loop d g include []) (\<lambda>context.
     exn_bind (render_context_message context) (\<lambda>include_context_message.
     let include_tokens = token_counter ev include_context_message in
     if include_tokens \<ge> max_tokens then Inr include_context_message
     else search_loop ev (min auto_tokens (max_tokens - include_tokens)) include_tokens 0
            results context include_context_message))"

section \<open>Predicates used to state the properties\<close>

text \<open>The id format of a detector chunk, stated on the text itself: one colon, and
  something after it.\<close>

definition id_format :: "string \<Rightarrow> bool" where
  "id_format s \<longleftrightarrow>
     count_list s CHR '':'' = 1 \<and> tl (dropWhile (\<lambda>x. x \<noteq> CHR '':'') s) \<noteq> []"

definition chunk_keys :: "string set" where
  "chunk_keys = {''id'', ''start_line'', ''end_line''}"

text \<open>The maximal runs of consecutive numbers of an ascending list, as pairs (first, last).\<close>

fun extend_run :: "int \<times> int \<Rightarrow> (int \<times> int) list \<Rightarrow> (int \<times> int) list" where
  "extend_run (s, e) [] = [(s, e)]"
| "extend_run (s, e) ((s', e') # rs) =
     (if s' = e + 1 then (s, e') # rs else (s, e) # (s', e') # rs)"

fun runs :: "int list \<Rightarrow> (int \<times> int) list" where
  "runs [] = []"
| "runs (x # xs) = extend_run (x, x) (runs xs)"

text \<open>The serialization of a run in the words of the specification: the bare number for a
  run of length 1, first-last otherwise.\<close>

definition serialize_run :: "int \<times> int \<Rightarrow> string" where
  "serialize_run r = (case r of (s, e) \<Rightarrow>
     if s = e then str_int s else str_int s @ ''-'' @ str_int e)"

text \<open>The BASE ref in the words of the specification.\<close>

definition spec_base_ref :: "string \<Rightarrow> int list \<Rightarrow> string" where
  "spec_base_ref node uncovered =
     (if uncovered = [] then node
      else node @ '':'' @ join '','' (map serialize_run (runs uncovered)))"

text \<open>The lines inside the author chunk ranges of a detector output.\<close>

definition author_lines :: "raw_chunk list \<Rightarrow> int set" where
  "author_lines chunks =
     set (concat (map (\<lambda>c. case chunk_bounds c of Inr (a, b) \<Rightarrow> [a .. b] | Inl e \<Rightarrow> []) chunks))"

text \<open>A text of decimal digits.\<close>

definition digits :: "string \<Rightarrow> bool" where
  "digits s \<longleftrightarrow> s \<noteq> [] \<and> (\<forall>c\<in>set s. digit_val c \<noteq> None)"

text \<open>What the loop of \<open>refs_loop\<close> writes for a list of runs: every run but the last as
  \<open>serialize_run\<close> does, the last one always as first-last.\<close>

fun code_serialize :: "(int \<times> int) list \<Rightarrow> string list" where
  "code_serialize [] = []"
| "code_serialize [(s, e)] = [str_int s @ ''-'' @ str_int e]"
| "code_serialize (r # r' # rs) = serialize_run r # code_serialize (r' # rs)"

text \<open>The lines inside a list of runs.\<close>

definition covered :: "(int \<times> int) list \<Rightarrow> int set" where
  "covered rs = set (concat (map (\<lambda>(s, e). [s .. e]) rs))"

text \<open>The lines that the ranges of a chunk ref of the file \<open>node\<close> name: the text after the
  path and a colon, read with the range grammar of \<open>get_context_message\<close>; the bare path
  has no ranges.\<close>

definition ref_lines :: "string \<Rightarrow> string \<Rightarrow> exn + int list" where
  "ref_lines node r =
     (if r = node then Inr []
      else if take (length node + 1) r = node @ '':''
      then add_ranges (split_on CHR '','' (drop (length node + 1) r)) []
      else Inl ValueError)"

text \<open>The lines of the BASE chunk of a descriptor list: the BASE chunk is the last
  descriptor, and an empty list has none.\<close>

definition base_lines :: "string \<Rightarrow> chunk_desc list \<Rightarrow> exn + int list" where
  "base_lines node descs =
     (if descs = [] then Inr [] else ref_lines node (chunk_ref (last descs)))"

text \<open>Author ranges and BASE ranges partition the lines 1 to N.\<close>

definition partitions :: "string \<Rightarrow> nat \<Rightarrow> raw_chunk list \<Rightarrow> chunk_desc list \<Rightarrow> bool" where
  "partitions node N chunks descs =
     (case base_lines node descs of
        Inl e \<Rightarrow> False
      | Inr ls \<Rightarrow>
          author_lines chunks \<union> set ls = {1 .. int N} \<and> author_lines chunks \<inter> set ls = {})"

text \<open>The checksums of the tracked files that can be read, in the order of the
  enumeration, and the fingerprint in the words of the specification: the hash of the
  sorted list of them.\<close>

definition tracked_checksums :: "env \<Rightarrow> string list" where
  "tracked_checksums ev =
     concat (map (\<lambda>p. case get_document ev (str_path p) of
                          Inr doc \<Rightarrow> [hash_str ev doc]
                        | Inl e \<Rightarrow> [])
               (get_non_gitignored_files ev))"

definition spec_files_checksum :: "env \<Rightarrow> string" where
  "spec_files_checksum ev = hash_str ev (concat (sort (tracked_checksums ev)))"

section \<open>A one-file repository for the examples\<close>

text \<open>
  One tracked file \<open>a.py\<close> of three lines, a detector that reports one chunk on lines 1
  to 2, a toy hash, and a store that already holds the record of the file. A document
  is the ref on a first line and the text after it (the comment at line 124 of daemon.py
  counts one line for the file name).
\<close>

definition demo_chunk :: "string \<Rightarrow> int \<Rightarrow> int \<Rightarrow> raw_chunk" where
  "demo_chunk i a b = [(''id'', PStr i), (''start_line'', PInt a), (''end_line'', PInt b)]"

definition demo_doc :: string where
  "demo_doc = ''a.py'' @ nl @ ''x'' @ nl @ ''y'' @ nl @ ''z'' @ nl"

definition demo_hash :: "string \<Rightarrow> string" where
  "demo_hash s = CHR ''#'' # s"

definition demo_file_record :: node_data where
  "demo_file_record =
     \<lparr>n_id = Some ''a.py'', n_type = Some ''file'', n_path = Some ''a.py'',
      n_ref = Some ''a.py'', n_checksum = Some (demo_hash demo_doc), n_active = Some False,
      n_chunks = None\<rparr>"

definition demo_db :: db where
  "demo_db = [demo_hash demo_doc \<mapsto> (demo_doc, demo_file_record)]"

definition demo_env :: env where
  "demo_env =
     \<lparr>get_non_gitignored_files = [[''a.py'']],
      get_document = (\<lambda>r. if r = ''a.py'' then Inr demo_doc
                          else if r = ''a.py:1-2'' then Inr (''a.py:1-2'' @ nl @ ''x'' @ nl @ ''y'' @ nl)
                          else if r = ''a.py:3-3'' then Inr (''a.py:3-3'' @ nl @ ''z'' @ nl)
                          else Inl OtherError),
      hash_str = demo_hash,
      read_lines = (\<lambda>p. if p = ''a.py'' then Inr [''x'', ''y'', ''z''] else Inl OtherError),
      chunk_file = (\<lambda>p ls. Inr [demo_chunk ''a.py:f'' 1 2]),
      token_counter = (\<lambda>s. int (length s))\<rparr>"

definition demo_start :: graph where
  "demo_start = empty_graph\<lparr>cwd := Some ''/repo''\<rparr>"

definition demo_descs :: "chunk_desc list" where
  "demo_descs =
     [\<lparr>chunk_id = ''a.py:f'', chunk_ref = ''a.py:1-2''\<rparr>,
      \<lparr>chunk_id = ''a.py:BASE'', chunk_ref = ''a.py:3-3''\<rparr>]"

text \<open>The graph that the Hierarchy stage builds for this repository.\<close>

definition demo_graph :: graph where
  "demo_graph =
     \<lparr>nodes = [(''a.py'', demo_file_record),
               (''ROOT'', \<lparr>n_id = Some ''ROOT'', n_type = Some ''directory'',
                           n_path = Some ''ROOT'', n_ref = None, n_checksum = None,
                           n_active = None, n_chunks = None\<rparr>)],
      edges = [(''ROOT'', ''a.py'', ''hierarchy'')],
      cwd = Some ''/repo'',
      files_checksum = Some (demo_hash (demo_hash demo_doc))\<rparr>"

text \<open>The context message for one search result, the whole file.\<close>

definition demo_message :: string where
  "demo_message =
     ''a.py (no-1-search-result)'' @ nl @ ''1: x'' @ nl @ ''2: y'' @ nl @ ''3: z'' @ nl"

section \<open>Splitting and validation\<close>

lemma split_on_none: "count_list s c = 0 \<Longrightarrow> split_on c s = [s]"
  by (induction s) (auto split: if_splits)

lemma split_on_once:
  "count_list s c = 1 \<Longrightarrow>
   split_on c s = [takeWhile (\<lambda>x. x \<noteq> c) s, tl (dropWhile (\<lambda>x. x \<noteq> c) s)]"
  by (induction s) (auto split: if_splits simp: split_on_none)

lemma is_chunk_valid_format:
  assumes "keys chunk = chunk_keys"
    and "map_of chunk ''id'' = Some (PStr s)" and "id_format s"
  shows "is_chunk_valid chunk = Inr True"
proof -
  from assms(3) have c: "count_list s CHR '':'' = 1"
    and t: "tl (dropWhile (\<lambda>x. x \<noteq> CHR '':'') s) \<noteq> []" by (simp_all add: id_format_def)
  have "index (split_on CHR '':'' s) 1 = Inr (tl (dropWhile (\<lambda>x. x \<noteq> CHR '':'') s))"
    by (simp add: split_on_once [OF c] index_def)
  moreover from t have "length (tl (dropWhile (\<lambda>x. x \<noteq> CHR '':'') s)) \<noteq> 0"
    by (simp del: length_tl)
  ultimately show ?thesis using assms(1,2) c
    by (simp add: is_chunk_valid_def getitem_def chunk_keys_def del: length_tl One_nat_def)
qed

lemma all_valid_True: "\<forall>c\<in>set cs. is_chunk_valid c = Inr True \<Longrightarrow> all_valid cs = Inr True"
  by (induction cs) auto

lemma all_valid_invalid:
  "c \<in> set cs \<Longrightarrow> is_chunk_valid c \<noteq> Inr True \<Longrightarrow> all_valid cs \<noteq> Inr True"
  by (induction cs) (auto split: sum.splits if_splits)

lemma discard_chunks_ok:
  "\<forall>c\<in>set cs. \<exists>a b. chunk_bounds c = Inr (a, b) \<Longrightarrow> \<exists>ls'. discard_chunks ls cs = Inr ls'"
  by (induction cs arbitrary: ls) (auto simp: exn_bind_def)

lemma author_chunks_ok:
  "\<forall>c\<in>set cs. (\<exists>s. map_of c ''id'' = Some (PStr s)) \<and> (\<exists>a b. chunk_bounds c = Inr (a, b))
   \<Longrightarrow> \<exists>ds. author_chunks node cs = Inr ds \<and> length ds = length cs"
proof (induction cs)
  case Nil
  then show ?case by simp
next
  case (Cons c cs)
  then obtain ds where ds: "author_chunks node cs = Inr ds" "length ds = length cs" by auto
  from Cons.prems obtain s a b where "map_of c ''id'' = Some (PStr s)" "chunk_bounds c = Inr (a, b)"
    by auto
  then obtain d where "author_chunk node c = Inr d"
    by (auto simp: author_chunk_def chunk_bounds_def exn_bind_def getitem_def
          split: option.splits sum.splits pyval.splits)
  with ds show ?case by (simp add: exn_bind_def)
qed

section \<open>Decimal text\<close>

lemma digit_val_digit_char: "d < 10 \<Longrightarrow> digit_val (digit_char d) = Some d"
  by (auto simp add: digit_val_def digit_char_def)

lemma digits_str_nat: "digits (str_nat n)"
proof (induction n rule: str_nat.induct)
  case (1 n)
  show ?case
  proof (cases "n < 10")
    case True
    then show ?thesis
      by (subst str_nat.simps) (simp add: digits_def digit_val_digit_char)
  next
    case False
    with 1 have "digits (str_nat (n div 10))" by simp
    moreover have "digit_val (digit_char (n mod 10)) = Some (n mod 10)"
      by (simp add: digit_val_digit_char)
    ultimately show ?thesis using False
      by (subst str_nat.simps) (simp add: digits_def)
  qed
qed

lemma parse_digits_snoc:
  "\<forall>c\<in>set xs. digit_val c \<noteq> None \<Longrightarrow> xs \<noteq> [] \<or> b \<Longrightarrow> parse_digits acc b xs = Some a \<Longrightarrow>
   d < 10 \<Longrightarrow> parse_digits acc b (xs @ [digit_char d]) = Some (10 * a + d)"
proof (induction xs arbitrary: acc b)
  case Nil
  then show ?case by (simp add: digit_val_digit_char)
next
  case (Cons x xs)
  then obtain v where v: "digit_val x = Some v" by auto
  from Cons.prems v have "parse_digits (10 * acc + v) True xs = Some a" by simp
  with Cons.IH [of True "10 * acc + v"] Cons.prems(1,4)
  have "parse_digits (10 * acc + v) True (xs @ [digit_char d]) = Some (10 * a + d)" by simp
  with v show ?case by simp
qed

lemma parse_digits_str_nat: "parse_digits 0 False (str_nat n) = Some n"
proof (induction n rule: str_nat.induct)
  case (1 n)
  show ?case
  proof (cases "n < 10")
    case True
    then show ?thesis
      by (subst str_nat.simps) (simp add: digit_val_digit_char)
  next
    case False
    with 1 have ih: "parse_digits 0 False (str_nat (n div 10)) = Some (n div 10)" by simp
    have dg: "digits (str_nat (n div 10))" by (rule digits_str_nat)
    have "parse_digits 0 False (str_nat (n div 10) @ [digit_char (n mod 10)])
            = Some (10 * (n div 10) + n mod 10)"
      using parse_digits_snoc [OF _ _ ih, of "n mod 10"] dg by (simp add: digits_def)
    then show ?thesis using False by (subst str_nat.simps) simp
  qed
qed

lemma digit_val_not_space: "digit_val c \<noteq> None \<Longrightarrow> \<not> is_space c"
  by (auto simp: digit_val_def is_space_def split: if_splits)

lemma digit_val_not_sep:
  "digit_val c \<noteq> None \<Longrightarrow> c \<noteq> CHR ''-'' \<and> c \<noteq> CHR '','' \<and> c \<noteq> CHR ''+'' \<and> c \<noteq> CHR '':''"
  by (auto simp: digit_val_def split: if_splits)

lemma strip_digits: "digits s \<Longrightarrow> strip s = s"
proof -
  assume d: "digits s"
  then obtain c cs where s: "s = c # cs" by (cases s) (auto simp: digits_def)
  from d have h: "\<not> is_space (hd s)" using s by (simp add: digits_def digit_val_not_space)
  from d have l: "\<not> is_space (last s)"
    by (metis digits_def digit_val_not_space last_in_set)
  have 1: "dropWhile is_space s = s" using h s by simp
  have 2: "dropWhile is_space (rev s) = rev s"
  proof (cases "rev s")
    case Nil
    then show ?thesis by simp
  next
    case (Cons y ys)
    then have "y = last s" by (metis hd_rev list.sel(1) rev_rev_ident rev.simps(1) Nil_is_rev_conv)
    with l have "\<not> is_space y" by simp
    then show ?thesis unfolding Cons by simp
  qed
  show ?thesis by (simp add: strip_def 1 2)
qed

lemma py_int_str_int: "0 \<le> n \<Longrightarrow> py_int (str_int n) = Inr n"
proof -
  assume n: "0 \<le> n"
  have d: "digits (str_nat (nat n))" by (rule digits_str_nat)
  then obtain c cs where s: "str_nat (nat n) = c # cs" by (cases "str_nat (nat n)") (auto simp: digits_def)
  with d have c: "c \<noteq> CHR ''-''" "c \<noteq> CHR ''+''" using digit_val_not_sep by (auto simp: digits_def)
  have "parse_digits 0 False (c # cs) = Some (nat n)" using parse_digits_str_nat [of "nat n"] s by simp
  moreover have "strip (c # cs) = c # cs" using strip_digits [OF d] s by simp
  ultimately show ?thesis using n c s
    by (simp add: py_int_def str_int_def del: parse_digits.simps)
qed

lemma str_int_no_sep: "0 \<le> n \<Longrightarrow> c \<in> set (str_int n) \<Longrightarrow> c \<noteq> CHR ''-'' \<and> c \<noteq> CHR '',''"
  using digits_str_nat [of "nat n"] digit_val_not_sep by (auto simp: str_int_def digits_def)


section \<open>Runs\<close>

lemma extend_run_ne: "extend_run r rs \<noteq> []"
  by (cases r; cases rs) (auto split: if_splits)

lemma extend_run_step:
  "i = e + 1 \<Longrightarrow> extend_run (s, e) (extend_run (i, i) rs) = extend_run (s, i) rs"
  by (cases rs) auto

lemma extend_run_new:
  "i \<noteq> e + 1 \<Longrightarrow> extend_run (s, e) (extend_run (i, i) rs) = (s, e) # extend_run (i, i) rs"
  by (cases rs) auto

lemma code_serialize_Cons:
  "rs \<noteq> [] \<Longrightarrow> code_serialize (r # rs) = serialize_run r # code_serialize rs"
  by (cases rs) auto

lemma refs_loop_runs:
  "refs_loop s e xs refs = refs @ code_serialize (extend_run (s, e) (runs xs))"
proof (induction xs arbitrary: s e refs)
  case Nil
  show ?case by simp
next
  case (Cons i rest)
  show ?case
  proof (cases "i = e + 1")
    case True
    then show ?thesis using Cons [of s i refs] by (simp add: extend_run_step)
  next
    case False
    then show ?thesis using Cons [of i i]
      by (simp add: extend_run_new code_serialize_Cons extend_run_ne serialize_run_def)
  qed
qed

lemma base_chunk_refs_runs:
  assumes "sorted lines"
  shows "base_chunk_refs lines = code_serialize (runs lines)"
proof (cases lines)
  case Nil
  then show ?thesis by (simp add: base_chunk_refs_def)
next
  case (Cons a list)
  have "sort lines = lines" using assms by (rule sorted_sort_id)
  then have "base_chunk_refs lines = refs_loop a a list []"
    unfolding base_chunk_refs_def using Cons by simp
  then show ?thesis using Cons by (simp add: refs_loop_runs)
qed

lemma runs_wf: "(s, e) \<in> set (runs xs) \<Longrightarrow> s \<le> e \<and> s \<in> set xs"
proof (induction xs arbitrary: s e)
  case Nil
  then show ?case by simp
next
  case (Cons x xs)
  show ?case
  proof (cases "runs xs")
    case Nil
    with Cons.prems show ?thesis by simp
  next
    case c: (Cons r rs)
    obtain s' e' where r: "r = (s', e')" by (cases r)
    have "s' \<le> e' \<and> s' \<in> set xs" using Cons.IH [of s' e'] c r by simp
    moreover have "(s, e) \<in> set rs \<Longrightarrow> s \<le> e \<and> s \<in> set xs" using Cons.IH [of s e] c by simp
    ultimately show ?thesis using Cons.prems c r by (auto split: if_splits)
  qed
qed

lemma covered_runs: "covered (runs xs) = set xs"
proof (induction xs)
  case Nil
  show ?case by (simp add: covered_def)
next
  case (Cons x xs)
  show ?case
  proof (cases "runs xs")
    case Nil
    with Cons show ?thesis by (simp add: covered_def)
  next
    case c: (Cons r rs)
    obtain s' e' where r: "r = (s', e')" by (cases r)
    have le: "s' \<le> e'" using runs_wf [of s' e' xs] c r by simp
    show ?thesis
    proof (cases "s' = x + 1")
      case True
      with le have "set [x .. e'] = insert x (set [s' .. e'])" by auto
      with Cons c r True show ?thesis by (simp add: covered_def)
    next
      case False
      with Cons c r show ?thesis by (simp add: covered_def)
    qed
  qed
qed

section \<open>Reading the ranges back\<close>

lemma set_fold_set_add: "set (fold set_add xs ls) = set xs \<union> set ls"
  by (induction xs arbitrary: ls) (auto simp: set_add_def)

lemma split_on_join:
  "xs \<noteq> [] \<Longrightarrow> \<forall>x\<in>set xs. c \<notin> set x \<Longrightarrow> split_on c (join [c] xs) = xs"
proof (induction "[c]" xs rule: join.induct)
  case 1
  then show ?case by simp
next
  case (2 x)
  then show ?case by (simp add: split_on_none count_list_0_iff)
next
  case (3 x y ys)
  have a: "split_on c (x @ c # zs) = x # split_on c zs" if "c \<notin> set x" for x zs
    using that by (induction x) (auto split: list.splits)
  from 3 show ?case by (simp add: a)
qed

lemma split_on_two:
  "c \<notin> set a \<Longrightarrow> c \<notin> set b \<Longrightarrow> split_on c (a @ c # b) = [a, b]"
  using split_on_join [of "[a, b]" c] by simp

lemma add_range_single:
  "0 \<le> s \<Longrightarrow> add_range (str_int s) ls = Inr (set_add s ls)"
  using str_int_no_sep [of s] by (auto simp: add_range_def py_int_str_int exn_bind_def)

lemma add_range_pair:
  "0 \<le> s \<Longrightarrow> 0 \<le> e \<Longrightarrow>
   add_range (str_int s @ CHR ''-'' # str_int e) ls = Inr (fold set_add [s .. e] ls)"
proof -
  assume s: "0 \<le> s" and e: "0 \<le> e"
  have "split_on CHR ''-'' (str_int s @ CHR ''-'' # str_int e) = [str_int s, str_int e]"
    using str_int_no_sep [OF s] str_int_no_sep [OF e] by (intro split_on_two) auto
  then show ?thesis using s e by (simp add: add_range_def py_int_str_int exn_bind_def)
qed

lemma add_range_serialize_run:
  "0 \<le> s \<Longrightarrow> s \<le> e \<Longrightarrow> \<exists>ls'. add_range (serialize_run (s, e)) ls = Inr ls' \<and>
     set ls' = {s .. e} \<union> set ls"
  by (auto simp: serialize_run_def add_range_single add_range_pair set_fold_set_add set_add_def)

lemma add_ranges_code_serialize:
  "\<forall>(s, e)\<in>set rs. 0 \<le> s \<and> s \<le> e \<Longrightarrow>
   \<exists>ls'. add_ranges (code_serialize rs) ls = Inr ls' \<and> set ls' = covered rs \<union> set ls"
proof (induction rs arbitrary: ls rule: code_serialize.induct)
  case 1
  show ?case by (simp add: covered_def)
next
  case (2 s e)
  then show ?case
    by (auto simp: add_range_pair exn_bind_def set_fold_set_add covered_def)
next
  case (3 r r' rs)
  obtain s e where r: "r = (s, e)" by (cases r)
  with 3 have "0 \<le> s" "s \<le> e" by auto
  then obtain l1 where l1: "add_range (serialize_run (s, e)) ls = Inr l1"
    "set l1 = {s .. e} \<union> set ls"
    using add_range_serialize_run by blast
  from 3 obtain l2 where "add_ranges (code_serialize (r' # rs)) l1 = Inr l2"
    "set l2 = covered (r' # rs) \<union> set l1" by fastforce
  with l1 r show ?case by (auto simp: exn_bind_def covered_def)
qed

lemma code_serialize_no_comma:
  "\<forall>(s, e)\<in>set rs. 0 \<le> s \<and> s \<le> e \<Longrightarrow> x \<in> set (code_serialize rs) \<Longrightarrow>
   CHR '','' \<notin> set x \<and> x \<noteq> []"
proof (induction rs rule: code_serialize.induct)
  case 1
  then show ?case by simp
next
  case (2 s e)
  then show ?case using str_int_no_sep [of s] str_int_no_sep [of e] by auto
next
  case (3 r r' rs)
  obtain s e where r: "r = (s, e)" by (cases r)
  have ne: "str_int n \<noteq> []" for n
    using digits_str_nat by (auto simp: str_int_def digits_def)
  from 3 r have "0 \<le> s" "s \<le> e" by auto
  then have "CHR '','' \<notin> set (serialize_run (s, e)) \<and> serialize_run (s, e) \<noteq> []"
    using str_int_no_sep [of s] str_int_no_sep [of e] ne by (auto simp: serialize_run_def)
  with 3 r show ?case by auto
qed

lemma is_chunk_valid_TrueD:
  assumes "is_chunk_valid c = Inr True"
  shows "keys c = chunk_keys \<and> (\<exists>s. map_of c ''id'' = Some (PStr s) \<and> id_format s)"
proof -
  from assms have k: "keys c = chunk_keys"
    by (auto simp: is_chunk_valid_def chunk_keys_def split: if_splits)
  from assms k obtain s where s: "map_of c ''id'' = Some (PStr s)"
    by (auto simp: is_chunk_valid_def chunk_keys_def getitem_def
          split: if_splits option.splits pyval.splits)
  from assms k s have c1: "count_list s CHR '':'' = 1"
    by (auto simp: is_chunk_valid_def chunk_keys_def getitem_def split: if_splits)
  from assms k s c1 have "tl (dropWhile (\<lambda>x. x \<noteq> CHR '':'') s) \<noteq> []"
    by (auto simp: is_chunk_valid_def chunk_keys_def getitem_def split_on_once index_def
          split: if_splits simp del: length_tl One_nat_def)
  with k s c1 show ?thesis by (auto simp: id_format_def)
qed

lemma all_valid_total:
  "\<forall>c\<in>set cs. \<exists>b. is_chunk_valid c = Inr b \<Longrightarrow> \<exists>b. all_valid cs = Inr b"
  by (induction cs) auto


section \<open>The BASE complement\<close>

lemma discard_chunks_set:
  "discard_chunks ls cs = Inr ls' \<Longrightarrow>
   set ls' = set ls - author_lines cs \<and> (sorted ls \<longrightarrow> sorted ls')"
proof (induction cs arbitrary: ls)
  case Nil
  then show ?case by (simp add: author_lines_def)
next
  case (Cons c cs)
  from Cons.prems obtain a b where ab: "chunk_bounds c = Inr (a, b)"
    and r: "discard_chunks (filter (\<lambda>i. \<not> (a \<le> i \<and> i \<le> b)) ls) cs = Inr ls'"
    by (auto simp: exn_bind_def split: sum.splits)
  from Cons.IH [OF r] ab show ?case
    by (auto simp: author_lines_def sorted_wrt_filter)
qed

lemma base_chunk_lines_set:
  assumes "base_chunk_lines file_lines chunks = Inr lines"
  shows "set lines = {1 .. int (length file_lines)} - author_lines chunks" and "sorted lines"
  using discard_chunks_set [OF assms [unfolded base_chunk_lines_def]] by auto

lemma join_ne: "xs \<noteq> [] \<Longrightarrow> \<forall>x\<in>set xs. x \<noteq> [] \<Longrightarrow> join sep xs \<noteq> []"
  by (induction sep xs rule: join.induct) auto

lemma ref_lines_base_chunk:
  assumes "sorted lines" and "\<forall>i\<in>set lines. 0 \<le> i"
  shows "\<exists>ls. ref_lines node (chunk_ref (base_chunk node (base_chunk_refs lines))) = Inr ls \<and>
           set ls = set lines"
proof (cases "lines = []")
  case True
  then show ?thesis by (simp add: base_chunk_def base_chunk_refs_def ref_lines_def)
next
  case False
  let ?rs = "runs lines"
  have refs: "base_chunk_refs lines = code_serialize ?rs"
    using assms(1) by (rule base_chunk_refs_runs)
  have wf: "\<forall>(s, e)\<in>set ?rs. 0 \<le> s \<and> s \<le> e"
    using runs_wf [of _ _ lines] assms(2) by fastforce
  have rs_ne: "?rs \<noteq> []" using False by (cases lines) (auto simp: extend_run_ne)
  have cs_ne: "code_serialize ?rs \<noteq> []"
    using rs_ne by (cases ?rs rule: code_serialize.cases) auto
  have elems: "\<forall>x\<in>set (code_serialize ?rs). CHR '','' \<notin> set x \<and> x \<noteq> []"
    using code_serialize_no_comma [OF wf] by blast
  have sp: "split_on CHR '','' (join '','' (code_serialize ?rs)) = code_serialize ?rs"
    using split_on_join [OF cs_ne, of "CHR '',''"] elems by simp
  have jne: "join '','' (code_serialize ?rs) \<noteq> []"
    using join_ne [OF cs_ne] elems by blast
  obtain ls where ls: "add_ranges (code_serialize ?rs) [] = Inr ls" "set ls = covered ?rs"
    using add_ranges_code_serialize [OF wf, of "[]"] by auto
  have "ref_lines node (node @ '':'' @ join '','' (code_serialize ?rs)) = Inr ls"
    using jne ls(1) sp by (simp add: ref_lines_def)
  then show ?thesis using refs cs_ne ls(2) covered_runs [of lines]
    by (simp add: base_chunk_def)
qed

lemma standardize_base_lines:
  assumes "standardize node file_lines chunks = Inr descs" and "chunks \<noteq> []"
  shows "\<exists>ls. base_lines node descs = Inr ls \<and>
           set ls = {1 .. int (length file_lines)} - author_lines chunks"
proof -
  from assms obtain lines ds where l: "base_chunk_lines file_lines chunks = Inr lines"
    and d: "descs = ds @ [base_chunk node (base_chunk_refs lines)]"
    by (auto simp: standardize_def exn_bind_def split: sum.splits)
  have s: "sorted lines" and e: "set lines = {1 .. int (length file_lines)} - author_lines chunks"
    using base_chunk_lines_set [OF l] by auto
  from e have "\<forall>i\<in>set lines. 0 \<le> i" by auto
  from ref_lines_base_chunk [OF s this, of node] e d show ?thesis
    by (auto simp: base_lines_def)
qed


section \<open>The checksums of the tracked files\<close>

lemma setitem_new: "k \<notin> fst ` set cs \<Longrightarrow> setitem cs k v = cs @ [(k, v)]"
  by (induction cs) auto

lemma set_setitem: "set (setitem cs k v) \<subseteq> insert (k, v) (set cs)"
  by (induction cs) (auto split: if_splits)

lemma checksums_loop_values:
  "distinct paths \<Longrightarrow> set paths \<inter> fst ` set cs = {} \<Longrightarrow>
   map snd (fst (checksums_loop ev d r paths cs add)) =
     map snd cs @ concat (map (\<lambda>p. case get_document ev (str_path p) of
                                       Inr doc \<Rightarrow> [hash_str ev doc] | Inl e \<Rightarrow> []) paths)"
proof (induction paths arbitrary: cs add)
  case Nil
  show ?case by simp
next
  case (Cons p ps)
  show ?case
  proof (cases "get_document ev (str_path p)")
    case (Inl e)
    with Cons show ?thesis by simp
  next
    case (Inr doc)
    from Cons.prems have new: "p \<notin> fst ` set cs" by auto
    have "set ps \<inter> fst ` set (cs @ [(p, hash_str ev doc)]) = {}"
      using Cons.prems by auto
    with Cons.IH [of "cs @ [(p, hash_str ev doc)]"] Cons.prems(1) Inr new
    show ?thesis by (simp add: setitem_new Let_def)
  qed
qed

lemma checksums_loop_stored:
  "\<forall>(p, c)\<in>set cs. c \<in> dom d \<or> c \<in> fst ` set add \<Longrightarrow>
   checksums_loop ev d r paths cs add = (cs', add') \<Longrightarrow>
   \<forall>(p, c)\<in>set cs'. c \<in> dom d \<or> c \<in> fst ` set add'"
proof (induction paths arbitrary: cs add)
  case Nil
  then show ?case by simp
next
  case (Cons p ps)
  show ?case
  proof (cases "get_document ev (str_path p)")
    case (Inl e)
    with Cons show ?thesis by simp
  next
    case (Inr doc)
    let ?c = "hash_str ev doc"
    let ?add = "if r \<or> \<not> d ?c \<noteq> None then add @ [(?c, doc,
        \<lparr>n_id = Some (str_path p), n_type = Some ''file'', n_path = Some (str_path p),
         n_ref = None, n_checksum = Some ?c, n_active = Some False, n_chunks = None\<rparr>)]
       else add"
    have step: "checksums_loop ev d r ps (setitem cs p ?c) ?add = (cs', add')"
      using Cons.prems(2) Inr by (simp add: Let_def)
    have "\<forall>(q, c)\<in>set (setitem cs p ?c). c \<in> dom d \<or> c \<in> fst ` set ?add"
    proof -
      have "?c \<in> dom d \<or> ?c \<in> fst ` set ?add" by (auto simp: dom_def)
      moreover have "\<forall>(q, c)\<in>set cs. c \<in> dom d \<or> c \<in> fst ` set ?add"
        using Cons.prems(1) by auto
      ultimately show ?thesis using set_setitem [of cs p ?c] by blast
    qed
    from Cons.IH [OF this step] show ?thesis .
  qed
qed

lemma dom_upsert: "dom (upsert d rs) = dom d \<union> fst ` set rs"
proof (induction rs arbitrary: d)
  case Nil
  show ?case by simp
next
  case (Cons r rs)
  obtain i doc md where r: "r = (i, doc, md)" by (cases r)
  have "dom (upsert (d(i \<mapsto> (doc, md))) rs) = dom (d(i \<mapsto> (doc, md))) \<union> fst ` set rs"
    by (rule Cons.IH)
  then show ?case unfolding r by auto
qed

lemma get_active_checksums_stored:
  "get_active_checksums ev d r = (cs, d') \<Longrightarrow> \<forall>(p, c)\<in>set cs. c \<in> dom d'"
proof -
  assume a: "get_active_checksums ev d r = (cs, d')"
  obtain cs0 add where l: "checksums_loop ev d r (get_non_gitignored_files ev) [] [] = (cs0, add)"
    by (cases "checksums_loop ev d r (get_non_gitignored_files ev) [] []")
  with a have cs: "cs0 = cs" and d': "d' = (if length add > 0 then upsert d add else d)"
    by (auto simp: get_active_checksums_def)
  have "\<forall>(p, c)\<in>set cs0. c \<in> dom d \<or> c \<in> fst ` set add"
    using checksums_loop_stored [OF _ l] by simp
  then show ?thesis unfolding cs d' by (auto simp: dom_upsert)
qed

lemma get_active_checksums_values:
  assumes "distinct (get_non_gitignored_files ev)"
  shows "map snd (fst (get_active_checksums ev d r)) = tracked_checksums ev"
proof -
  have "fst (get_active_checksums ev d r)
          = fst (checksums_loop ev d r (get_non_gitignored_files ev) [] [])"
    by (cases "checksums_loop ev d r (get_non_gitignored_files ev) [] []")
       (simp add: get_active_checksums_def)
  then show ?thesis
    using checksums_loop_values [OF assms, of "[]" ev d r "[]"]
    by (simp add: tracked_checksums_def)
qed

lemma file_nodes_loop_ok:
  "\<forall>(p, c)\<in>set cs. c \<in> dom d \<Longrightarrow> \<exists>r. file_nodes_loop d cs g es = Inr r"
  by (induction d cs g es rule: file_nodes_loop.induct) (auto split: option.splits)


section \<open>The token budget\<close>

lemma search_loop_bound:
  "search_loop ev auto inc i results ctx full = Inr msg \<Longrightarrow>
   msg = full \<or> token_counter ev msg - inc \<le> auto"
proof (induction results arbitrary: i ctx full)
  case Nil
  then show ?case by simp
next
  case (Cons r rest)
  obtain node document where r: "r = (node, document)" by (cases r)
  from Cons.prems [unfolded r] show ?case
    apply (simp add: exn_bind_def Let_def split: option.splits prod.splits sum.splits if_splits)
    using Cons.IH by fastforce+
qed


section \<open>Evaluation of small numbers\<close>

lemma str_small:
  "str_int 1 = ''1''" "str_int 2 = ''2''" "str_int 3 = ''3''" "str_int 5 = ''5''"
  by (simp_all add: str_int_def str_nat.simps digit_char_def)

lemmas eval_chunks = standardize_def base_chunk_lines_def demo_chunk_def chunk_bounds_def
  getitem_def exn_bind_def author_chunk_def base_chunk_def base_chunk_refs_def upto.simps
  str_small

lemmas eval_valid = is_chunk_valid_def keys_def getitem_def index_def

lemmas eval_context = get_context_message_def render_context_message_def split_ref_def
  add_lines_def add_range_def exn_bind_def getitem_def keys_def set_add_def index_int_def
  nl_def demo_env_def demo_db_def demo_graph_def demo_file_record_def demo_doc_def
  demo_hash_def demo_message_def str_small

section \<open>The claims\<close>


text \<open>
  C1, as the code has it. For a non-empty file of N lines and a non-empty detector
  output on which \<open>get_file_chunk_data\<close> returns, the lines named by the ranges of the BASE
  ref are exactly the lines of 1..N that lie in no author chunk range. So no line is in
  an author chunk and in BASE, and the two together are exactly 1..N whenever every
  author range lies inside 1..N.
\<close>

theorem base_is_complement_of_author_chunks:
  assumes "read_lines ev node = Inr file_lines"
    and "chunk_file ev node file_lines = Inr chunks"
    and "file_lines \<noteq> []" and "chunks \<noteq> []"
    and "get_file_chunk_data ev d node data = Inr (d', data')"
  shows "\<exists>descs ls. n_chunks data' = Some (ChunksList descs) \<and>
           base_lines node descs = Inr ls \<and>
           set ls = {1 .. int (length file_lines)} - author_lines chunks \<and>
           author_lines chunks \<inter> set ls = {} \<and>
           (author_lines chunks \<subseteq> {1 .. int (length file_lines)} \<longrightarrow>
              partitions node (length file_lines) chunks descs)"
proof -
  from assms(1,5) obtain cs descs where c: "detect_chunks ev node file_lines = Inr cs"
    and s: "standardize node file_lines cs = Inr descs"
    and dd: "n_chunks data' = Some (ChunksList descs)"
    by (auto simp: get_file_chunk_data_def exn_bind_def split: sum.splits option.splits)
  from c assms(2,3) have "cs = chunks"
    by (auto simp: detect_chunks_def exn_bind_def split: sum.splits if_splits)
  with s have s': "standardize node file_lines chunks = Inr descs" by simp
  from standardize_base_lines [OF s' assms(4)] obtain ls
    where ls: "base_lines node descs = Inr ls"
      "set ls = {1 .. int (length file_lines)} - author_lines chunks" by blast
  then have "author_lines chunks \<subseteq> {1 .. int (length file_lines)} \<longrightarrow>
              partitions node (length file_lines) chunks descs"
    by (auto simp: partitions_def)
  with ls dd show ?thesis by blast
qed

theorem base_is_complement_of_author_chunks_witness:
  "get_file_chunk_data demo_env demo_db ''a.py'' demo_file_record
     = Inr (demo_db(demo_hash demo_doc \<mapsto>
                      (demo_doc, demo_file_record\<lparr>n_chunks := Some (ChunksJson demo_descs)\<rparr>)),
            demo_file_record\<lparr>n_chunks := Some (ChunksList demo_descs)\<rparr>) \<and>
   partitions ''a.py'' 3 [demo_chunk ''a.py:f'' 1 2] demo_descs"
proof -
  have r: "read_lines demo_env ''a.py'' = Inr [''x'', ''y'', ''z'']"
    by (simp add: demo_env_def)
  have c: "chunk_file demo_env ''a.py'' [''x'', ''y'', ''z''] = Inr [demo_chunk ''a.py:f'' 1 2]"
    by (simp add: demo_env_def)
  have v: "is_chunk_valid (demo_chunk ''a.py:f'' 1 2) = Inr True"
    by (simp add: eval_valid demo_chunk_def)
  have s: "standardize ''a.py'' [''x'', ''y'', ''z''] [demo_chunk ''a.py:f'' 1 2] = Inr demo_descs"
    by (simp add: eval_chunks demo_descs_def)
  have g: "get_file_chunk_data demo_env demo_db ''a.py'' demo_file_record
     = Inr (demo_db(demo_hash demo_doc \<mapsto>
                      (demo_doc, demo_file_record\<lparr>n_chunks := Some (ChunksJson demo_descs)\<rparr>)),
            demo_file_record\<lparr>n_chunks := Some (ChunksList demo_descs)\<rparr>)"
    by (simp add: get_file_chunk_data_def detect_chunks_def r c v s exn_bind_def
          demo_file_record_def demo_db_def)
  have a: "author_lines [demo_chunk ''a.py:f'' 1 2] \<subseteq> {1 .. int (length [''x'', ''y'', ''z''])}"
    by (simp add: author_lines_def demo_chunk_def chunk_bounds_def getitem_def exn_bind_def
          upto.simps)
  from base_is_complement_of_author_chunks [OF r c _ _ g] a
  have "partitions ''a.py'' (length [''x'', ''y'', ''z'']) [demo_chunk ''a.py:f'' 1 2] demo_descs"
    by auto
  with g show ?thesis by (simp add: eval_nat_numeral)
qed

text \<open>
  C1 as stated fails twice on a two-line file: a valid chunk on lines 1 to 5 covers
  lines that the file does not have, and a detector that returns no chunk leaves the
  file without a BASE chunk, so nothing is covered.
\<close>

theorem partition_counterexample:
  "all_valid [demo_chunk ''a.py:f'' 1 5] = Inr True \<and>
   standardize ''a.py'' [''x'', ''y''] [demo_chunk ''a.py:f'' 1 5]
     = Inr [\<lparr>chunk_id = ''a.py:f'', chunk_ref = ''a.py:1-5''\<rparr>,
            \<lparr>chunk_id = ''a.py:BASE'', chunk_ref = ''a.py''\<rparr>] \<and>
   \<not> partitions ''a.py'' 2 [demo_chunk ''a.py:f'' 1 5]
        [\<lparr>chunk_id = ''a.py:f'', chunk_ref = ''a.py:1-5''\<rparr>,
         \<lparr>chunk_id = ''a.py:BASE'', chunk_ref = ''a.py''\<rparr>] \<and>
   all_valid [] = Inr True \<and>
   standardize ''a.py'' [''x'', ''y''] [] = Inr [] \<and>
   \<not> partitions ''a.py'' 2 [] []"
proof -
  have a: "(3::int) \<in> author_lines [demo_chunk ''a.py:f'' 1 5]"
    by (simp add: author_lines_def demo_chunk_def chunk_bounds_def getitem_def exn_bind_def
          upto.simps)
  have "\<not> partitions ''a.py'' 2 [demo_chunk ''a.py:f'' 1 5]
        [\<lparr>chunk_id = ''a.py:f'', chunk_ref = ''a.py:1-5''\<rparr>,
         \<lparr>chunk_id = ''a.py:BASE'', chunk_ref = ''a.py''\<rparr>]"
  proof
    assume "partitions ''a.py'' 2 [demo_chunk ''a.py:f'' 1 5]
        [\<lparr>chunk_id = ''a.py:f'', chunk_ref = ''a.py:1-5''\<rparr>,
         \<lparr>chunk_id = ''a.py:BASE'', chunk_ref = ''a.py''\<rparr>]"
    then have "author_lines [demo_chunk ''a.py:f'' 1 5] = {1 .. 2}"
      by (simp add: partitions_def base_lines_def ref_lines_def)
    with a show False by simp
  qed
  moreover have "\<not> partitions ''a.py'' 2 [] []"
    by (simp add: partitions_def base_lines_def author_lines_def)
  moreover have "all_valid [demo_chunk ''a.py:f'' 1 5] = Inr True"
    by (simp add: eval_valid demo_chunk_def)
  moreover have "standardize ''a.py'' [''x'', ''y''] [demo_chunk ''a.py:f'' 1 5]
     = Inr [\<lparr>chunk_id = ''a.py:f'', chunk_ref = ''a.py:1-5''\<rparr>,
            \<lparr>chunk_id = ''a.py:BASE'', chunk_ref = ''a.py''\<rparr>]"
    by (simp add: eval_chunks)
  moreover have "standardize ''a.py'' [''x'', ''y''] [] = Inr []"
    by (simp add: standardize_def)
  ultimately show ?thesis by simp
qed

text \<open>
  C6, at the input where the code leaves the claim. On a three-line file with one chunk
  on lines 1 to 2 the only uncovered line is 3, a run of length 1. The append after the
  loop always writes first-last, so the BASE ref is file:3-3, where the serialization of
  the claim gives file:3.
\<close>

theorem final_single_line_run:
  "standardize ''file'' [''a'', ''b'', ''c''] [demo_chunk ''file:foo'' 1 2]
     = Inr [\<lparr>chunk_id = ''file:foo'', chunk_ref = ''file:1-2''\<rparr>,
            \<lparr>chunk_id = ''file:BASE'', chunk_ref = ''file:3-3''\<rparr>] \<and>
   spec_base_ref ''file'' [3] = ''file:3''"
  by (simp add: eval_chunks spec_base_ref_def serialize_run_def)

text \<open>
  C7. On a non-empty file, a detector output with one invalid chunk (wrong key set, an
  id that is not a text with exactly one colon, or nothing after the colon) makes
  \<open>get_file_chunk_data\<close> raise: no descriptor list is stored, for any chunk of the file.
  The error is the ValueError of line 55 unless a validity check raised itself (an id
  that is not a text).
\<close>

theorem invalid_chunk_fails_whole_file:
  assumes "read_lines ev node = Inr file_lines" and "file_lines \<noteq> []"
    and "chunk_file ev node file_lines = Inr chunks" and "c \<in> set chunks"
    and "\<not> (keys c = chunk_keys \<and> (\<exists>s. map_of c ''id'' = Some (PStr s) \<and> id_format s))"
  shows "(\<exists>e. get_file_chunk_data ev d node data = Inl e) \<and>
         ((\<forall>c\<in>set chunks. \<exists>b. is_chunk_valid c = Inr b) \<longrightarrow>
            get_file_chunk_data ev d node data = Inl ValueError)"
proof -
  from assms(5) have "is_chunk_valid c \<noteq> Inr True" using is_chunk_valid_TrueD by blast
  with assms(4) have nt: "all_valid chunks \<noteq> Inr True" by (rule all_valid_invalid)
  have d: "detect_chunks ev node file_lines =
             (case all_valid chunks of Inl e \<Rightarrow> Inl e | Inr ok \<Rightarrow> Inl ValueError)"
    using assms(2,3) nt
    by (auto simp: detect_chunks_def exn_bind_def split: sum.splits)
  have g: "get_file_chunk_data ev d node data =
             (case all_valid chunks of Inl e \<Rightarrow> Inl e | Inr ok \<Rightarrow> Inl ValueError)"
    using assms(1) d by (simp add: get_file_chunk_data_def exn_bind_def split: sum.splits)
  have "\<exists>e. get_file_chunk_data ev d node data = Inl e"
    unfolding g by (cases "all_valid chunks") auto
  moreover have "get_file_chunk_data ev d node data = Inl ValueError"
    if "\<forall>c\<in>set chunks. \<exists>b. is_chunk_valid c = Inr b"
    using all_valid_total [OF that] unfolding g by auto
  ultimately show ?thesis by blast
qed

text \<open>The scenario of the specification: an empty chunk path after the colon.\<close>

theorem invalid_chunk_fails_whole_file_witness:
  "\<not> id_format ''file:'' \<and>
   get_file_chunk_data
     (demo_env\<lparr>chunk_file := \<lambda>p ls. Inr [demo_chunk ''a.py:f'' 1 1, demo_chunk ''file:'' 1 2]\<rparr>)
     demo_db ''a.py'' demo_file_record = Inl ValueError"
proof -
  let ?ev = "demo_env\<lparr>chunk_file := \<lambda>p ls. Inr [demo_chunk ''a.py:f'' 1 1, demo_chunk ''file:'' 1 2]\<rparr>"
  let ?cs = "[demo_chunk ''a.py:f'' 1 1, demo_chunk ''file:'' 1 2]"
  have r: "read_lines ?ev ''a.py'' = Inr [''x'', ''y'', ''z'']" by (simp add: demo_env_def)
  have c: "chunk_file ?ev ''a.py'' [''x'', ''y'', ''z''] = Inr ?cs" by simp
  have m: "demo_chunk ''file:'' 1 2 \<in> set ?cs" by simp
  have n: "\<not> id_format ''file:''" by (simp add: id_format_def)
  then have i: "\<not> (keys (demo_chunk ''file:'' 1 2) = chunk_keys \<and>
            (\<exists>s. map_of (demo_chunk ''file:'' 1 2) ''id'' = Some (PStr s) \<and> id_format s))"
    by (simp add: demo_chunk_def)
  have t: "\<forall>c\<in>set ?cs. \<exists>b. is_chunk_valid c = Inr b"
    by (auto simp add: eval_valid demo_chunk_def)
  from invalid_chunk_fails_whole_file [OF r _ c m i, of demo_db demo_file_record] t n
  show ?thesis by simp
qed

text \<open>
  C9. With a working directory on the graph and an enumeration that lists no path twice,
  \<open>Hierarchy_annotate\<close> returns, and the \<open>files_checksum\<close> it stores is the hash of the
  sorted list of the checksums of the tracked files (those that can be read);
  \<open>Hierarchy_is_complete\<close> returns, and its answer is true exactly when the value on the
  graph equals that fingerprint, recomputed from the tracked files.
\<close>

theorem files_checksum_is_fingerprint:
  assumes "cwd g = Some c" and "distinct (get_non_gitignored_files ev)"
  shows "(\<exists>g' d'. Hierarchy_annotate ev d g refresh = Inr (g', d') \<and>
            files_checksum g' = Some (spec_files_checksum ev)) \<and>
         (\<exists>d'. Hierarchy_is_complete ev d g
            = Inr (files_checksum g = Some (spec_files_checksum ev), d'))"
proof -
  have fp: "fingerprint ev (fst (get_active_checksums ev d r)) = spec_files_checksum ev" for r
    using get_active_checksums_values [OF assms(2)]
    by (simp add: fingerprint_def spec_files_checksum_def)
  obtain cs d1 where a: "get_active_checksums ev d refresh = (cs, d1)"
    by (cases "get_active_checksums ev d refresh")
  obtain res where "file_nodes_loop d1 cs (empty_graph\<lparr>cwd := Some c\<rparr>) [] = Inr res"
    using file_nodes_loop_ok [OF get_active_checksums_stored [OF a]] by blast
  then have "\<exists>g' d'. Hierarchy_annotate ev d g refresh = Inr (g', d') \<and>
            files_checksum g' = Some (spec_files_checksum ev)"
    using assms(1) a fp [of refresh]
    by (cases res) (simp add: Hierarchy_annotate_def exn_bind_def)
  moreover have "\<exists>d'. Hierarchy_is_complete ev d g
            = Inr (files_checksum g = Some (spec_files_checksum ev), d')"
    using assms(1) fp [of False]
    by (cases "get_active_checksums ev d False") (simp add: Hierarchy_is_complete_def)
  ultimately show ?thesis by blast
qed

theorem files_checksum_is_fingerprint_witness:
  "cwd demo_start = Some ''/repo'' \<and> distinct (get_non_gitignored_files demo_env) \<and>
   (\<exists>g' d'. Hierarchy_annotate demo_env demo_db demo_start False = Inr (g', d') \<and>
      files_checksum g' = Some (demo_hash (demo_hash demo_doc))) \<and>
   (\<exists>d'. Hierarchy_is_complete demo_env demo_db demo_start = Inr (False, d'))"
proof -
  have c: "cwd demo_start = Some ''/repo''" by (simp add: demo_start_def empty_graph_def)
  have d: "distinct (get_non_gitignored_files demo_env)" by (simp add: demo_env_def)
  have s: "spec_files_checksum demo_env = demo_hash (demo_hash demo_doc)"
    by (simp add: spec_files_checksum_def tracked_checksums_def demo_env_def str_path_def)
  have n: "files_checksum demo_start = None" by (simp add: demo_start_def empty_graph_def)
  from files_checksum_is_fingerprint [OF c d, of demo_db False] c d s n
  show ?thesis by simp
qed

text \<open>
  C2. Whenever \<open>get_context_message\<close> returns a message: the include loop returned a
  context and its render \<open>inc\<close> exists; if the token count of \<open>inc\<close> is at least
  \<open>max_tokens\<close>, the message is \<open>inc\<close> itself, with nothing added; otherwise the message
  is either \<open>inc\<close> or a render that passed the test of line 161, so its token count is at
  most that of \<open>inc\<close> plus min(auto_tokens, max_tokens - include_tokens), and in both
  cases at most \<open>max_tokens\<close>.
\<close>

theorem context_message_within_budget:
  assumes "get_context_message ev d g results include max_tokens auto_tokens = Inr msg"
  shows "\<exists>cx inc.
           include_loop d g include [] = Inr cx \<and>
           render_context_message cx = Inr inc \<and>
           (token_counter ev inc \<ge> max_tokens \<longrightarrow> msg = inc) \<and>
           (token_counter ev inc < max_tokens \<longrightarrow>
              (msg = inc \<or>
               token_counter ev msg
                 \<le> token_counter ev inc + min auto_tokens (max_tokens - token_counter ev inc)) \<and>
              token_counter ev msg \<le> max_tokens)"
proof -
  from assms obtain cx inc where c: "include_loop d g include [] = Inr cx"
    and r: "render_context_message cx = Inr inc"
    by (auto simp: get_context_message_def exn_bind_def split: sum.splits)
  show ?thesis
  proof (cases "token_counter ev inc \<ge> max_tokens")
    case True
    with assms c r have "msg = inc"
      by (simp add: get_context_message_def exn_bind_def Let_def)
    with c r True show ?thesis by auto
  next
    case False
    with assms c r have "search_loop ev (min auto_tokens (max_tokens - token_counter ev inc))
        (token_counter ev inc) 0 results cx inc = Inr msg"
      by (simp add: get_context_message_def exn_bind_def Let_def)
    from search_loop_bound [OF this] False c r show ?thesis by auto
  qed
qed

text \<open>One search result, the whole file, within the default budget.\<close>

theorem context_message_within_budget_witness:
  "get_context_message demo_env demo_db demo_graph [(demo_file_record, demo_doc)] [] 8000 2000
     = Inr demo_message \<and>
   token_counter demo_env demo_message \<le> 8000"
proof -
  have g: "get_context_message demo_env demo_db demo_graph [(demo_file_record, demo_doc)] []
             8000 2000 = Inr demo_message"
    by (simp add: eval_context upto.simps)
  from context_message_within_budget [OF g] obtain cx inc
    where c: "include_loop demo_db demo_graph [] [] = Inr cx"
      and r: "render_context_message cx = Inr inc"
      and b: "token_counter demo_env inc < 8000 \<longrightarrow> token_counter demo_env demo_message \<le> 8000"
    by blast
  from c have "cx = []" by simp
  with r have "inc = []" by (simp add: render_context_message_def)
  with b have "token_counter demo_env demo_message \<le> 8000" by (simp add: demo_env_def)
  with g show ?thesis by simp
qed

text \<open>
  C8, at the input where the code leaves the claim. The explicit references a.py:1-3 and
  a.py:2-5 name a node of the graph; the entry for a.py is created with \<open>tags\<close> a set, and
  \<^verbatim>\<open>context[path]["tags"].append("user-included")\<close> raises AttributeError, so no line set
  and no block is produced. A reference to a path that is not a node is skipped, as the
  claim says.
\<close>

theorem explicit_reference_raises:
  "get_context_message demo_env demo_db demo_graph [] [''a.py:1-3'', ''a.py:2-5''] 8000 2000
     = Inl AttributeError \<and>
   get_context_message demo_env demo_db demo_graph [] [''nope.py:1-3''] 8000 2000 = Inr []"
  by (simp add: eval_context)

text \<open>
  C10. Validation reads the key set and the id only. A list of chunks whose keys are
  exactly id, start_line, end_line and whose ids have one colon followed by a non-empty
  segment is valid whatever is stored under start_line and end_line; and when those
  values are integers, any integers at all (outside the file, overlapping), the detector
  output of a non-empty file is accepted as it is and goes into the BASE computation:
  the descriptors are the author chunks followed by the BASE chunk.
\<close>

theorem valid_format_accepted_unchecked:
  assumes "\<forall>c\<in>set chunks. keys c = chunk_keys \<and>
             (\<exists>s. map_of c ''id'' = Some (PStr s) \<and> id_format s)"
  shows "(\<forall>c\<in>set chunks. is_chunk_valid c = Inr True) \<and>
         (file_lines \<noteq> [] \<and> chunks \<noteq> [] \<and> chunk_file ev node file_lines = Inr chunks \<and>
          (\<forall>c\<in>set chunks. \<exists>a b. chunk_bounds c = Inr (a, b)) \<longrightarrow>
            detect_chunks ev node file_lines = Inr chunks \<and>
            (\<exists>ds lines. base_chunk_lines file_lines chunks = Inr lines \<and>
               author_chunks node chunks = Inr ds \<and> length ds = length chunks \<and>
               standardize node file_lines chunks
                 = Inr (ds @ [base_chunk node (base_chunk_refs lines)])))"
proof -
  have v: "\<forall>c\<in>set chunks. is_chunk_valid c = Inr True"
    using assms by (auto intro: is_chunk_valid_format)
  have "detect_chunks ev node file_lines = Inr chunks"
    if "file_lines \<noteq> []" "chunk_file ev node file_lines = Inr chunks"
    using that all_valid_True [OF v] by (simp add: detect_chunks_def exn_bind_def)
  moreover have "\<exists>ds lines. base_chunk_lines file_lines chunks = Inr lines \<and>
               author_chunks node chunks = Inr ds \<and> length ds = length chunks \<and>
               standardize node file_lines chunks
                 = Inr (ds @ [base_chunk node (base_chunk_refs lines)])"
    if ne: "chunks \<noteq> []" and b: "\<forall>c\<in>set chunks. \<exists>a b. chunk_bounds c = Inr (a, b)"
  proof -
    obtain lines where l: "base_chunk_lines file_lines chunks = Inr lines"
      using discard_chunks_ok [OF b] by (auto simp: base_chunk_lines_def)
    have "\<forall>c\<in>set chunks. (\<exists>s. map_of c ''id'' = Some (PStr s)) \<and>
            (\<exists>a b. chunk_bounds c = Inr (a, b))"
      using assms b by blast
    then obtain ds where d: "author_chunks node chunks = Inr ds" "length ds = length chunks"
      using author_chunks_ok by blast
    show ?thesis using l d ne by (simp add: standardize_def exn_bind_def)
  qed
  ultimately show ?thesis using v by blast
qed

text \<open>At a two-line file, a chunk spanning lines -3 to 40 is accepted and leaves BASE
  with no line.\<close>

theorem valid_format_accepted_unchecked_witness:
  "is_chunk_valid [(''id'', PStr ''a.py:f''), (''start_line'', PInt (- 3)), (''end_line'', PInt 40)]
     = Inr True \<and>
   standardize ''a.py'' [''x'', ''y'']
     [[(''id'', PStr ''a.py:f''), (''start_line'', PInt (- 3)), (''end_line'', PInt 40)]]
     = Inr [\<lparr>chunk_id = ''a.py:f'', chunk_ref = ''a.py:-3-40''\<rparr>,
            \<lparr>chunk_id = ''a.py:BASE'', chunk_ref = ''a.py''\<rparr>]"
proof -
  let ?c = "[(''id'', PStr ''a.py:f''), (''start_line'', PInt (- 3)), (''end_line'', PInt 40)]"
  let ?ev = "\<lparr>get_non_gitignored_files = [], get_document = (\<lambda>_. Inl OtherError),
             hash_str = (\<lambda>s. s), read_lines = (\<lambda>_. Inr [''x'', ''y'']),
             chunk_file = (\<lambda>_ _. Inr [?c]), token_counter = (\<lambda>_. 0)\<rparr>"
  have h: "\<forall>c\<in>set [?c]. keys c = chunk_keys \<and>
             (\<exists>s. map_of c ''id'' = Some (PStr s) \<and> id_format s)"
    by (auto simp: keys_def chunk_keys_def id_format_def)
  have b: "\<forall>c\<in>set [?c]. \<exists>a b. chunk_bounds c = Inr (a, b)"
    by (simp add: chunk_bounds_def getitem_def exn_bind_def)
  from valid_format_accepted_unchecked [OF h, of "[''x'', ''y'']" ?ev "''a.py''"] b
  obtain ds lines where v: "is_chunk_valid ?c = Inr True"
    and l: "base_chunk_lines [''x'', ''y''] [?c] = Inr lines"
    and a: "author_chunks ''a.py'' [?c] = Inr ds"
    and s: "standardize ''a.py'' [''x'', ''y''] [?c]
              = Inr (ds @ [base_chunk ''a.py'' (base_chunk_refs lines)])"
    by auto
  have "lines = []"
    using l by (simp add: base_chunk_lines_def chunk_bounds_def getitem_def exn_bind_def
                  upto.simps)
  moreover have "ds = [\<lparr>chunk_id = ''a.py:f'', chunk_ref = ''a.py:-3-40''\<rparr>]"
    using a by (simp add: author_chunk_def getitem_def exn_bind_def str_int_def
                  str_nat.simps digit_char_def)
  ultimately show ?thesis using v s by (simp add: base_chunk_def base_chunk_refs_def)
qed

end
